theory Spec2Isabelle
  imports Main "HOL-Library.DAList"
begin

section \<open>Data model of \<^verbatim>\<open>torch/cuda/_sanitizer.py\<close>\<close>

text \<open>
  Identifiers and sequence numbers are Python integers, hence unbounded.  A captured
  \<^verbatim>\<open>traceback.StackSummary\<close> is opaque to the sanitizer: it is stored and handed on, never
  inspected, so it is modelled by its formatted frames.  A Python \<^verbatim>\<open>dict\<close> keeps its keys
  distinct and in insertion order; it is the type of association lists with distinct keys,
  where \<open>DAList.update\<close> overwrites in place or appends, as item assignment does.

  Names are those of the source.  A private name loses its leading underscore
  (\<^verbatim>\<open>_ensure_stream_exists\<close> is \<open>ensure_stream_exists\<close>, \<^verbatim>\<open>_handle_kernel_launch\<close> is
  \<open>handle_kernel_launch\<close>), the attribute \<^verbatim>\<open>write\<close> of \<^verbatim>\<open>TensorInfo\<close> is \<open>write'\<close>, and the
  attribute \<^verbatim>\<open>allocation_stack_trace\<close> of a report is \<open>allocation_stack\<close>.  A raised exception
  is the left summand of the result; a method that returns gives the object it has updated.
\<close>

type_synonym DataPtr = int
type_synonym StreamId = int
type_synonym EventId = int
type_synonym SeqNum = int
type_synonym StackSummary = "string list"
type_synonym ('k, 'v) dict = "('k, 'v) alist"

datatype py_error = KeyError

datatype AccessType = READ | WRITE

record Access =
  type :: AccessType
  seq_num :: SeqNum
  stream :: StreamId
  operator :: string
  names :: "string list"
  stack_trace :: StackSummary

datatype SynchronizationError =
  UnsynchronizedAccessError
    (data_ptr: DataPtr)
    (allocation_stack: "StackSummary option")
    (current_access: Access)
    (previous_access: Access)

record TensorInfo =
  allocation_stack_trace :: "StackSummary option"
  reads :: "Access list"
  write' :: "Access option"

record TensorsAccessed =
  accesses :: "(DataPtr, TensorInfo) dict"

record StreamSynchronizations =
  current_sync_states :: "(StreamId, (StreamId, SeqNum) dict) dict"
  recorded_sync_states :: "(EventId, (StreamId, SeqNum) dict) dict"

record EventHandler =
  tensors_accessed :: TensorsAccessed
  syncs :: StreamSynchronizations
  seq_num :: SeqNum

subsection \<open>Dictionary primitives\<close>

text \<open>\<^verbatim>\<open>k in d\<close>\<close>
definition dict_contains :: "('k, 'v) dict \<Rightarrow> 'k \<Rightarrow> bool" where
  "dict_contains d k = (DAList.lookup d k \<noteq> None)"

text \<open>\<^verbatim>\<open>d[k]\<close>, which raises \<^verbatim>\<open>KeyError\<close> on a missing key\<close>
definition dict_getitem :: "('k, 'v) dict \<Rightarrow> 'k \<Rightarrow> py_error + 'v" where
  "dict_getitem d k = (case DAList.lookup d k of None \<Rightarrow> Inl KeyError | Some v \<Rightarrow> Inr v)"

text \<open>\<^verbatim>\<open>d[k] = v\<close>\<close>
definition dict_setitem :: "('k, 'v) dict \<Rightarrow> 'k \<Rightarrow> 'v \<Rightarrow> ('k, 'v) dict" where
  "dict_setitem d k v = DAList.update k v d"

text \<open>\<^verbatim>\<open>del d[k]\<close>, which raises \<^verbatim>\<open>KeyError\<close> on a missing key\<close>
definition dict_delitem :: "('k, 'v) dict \<Rightarrow> 'k \<Rightarrow> py_error + ('k, 'v) dict" where
  "dict_delitem d k = (if dict_contains d k then Inr (DAList.delete k d) else Inl KeyError)"

text \<open>\<^verbatim>\<open>d.get(k, default)\<close>\<close>
definition dict_get :: "('k, 'v) dict \<Rightarrow> 'k \<Rightarrow> 'v \<Rightarrow> 'v" where
  "dict_get d k dflt = (case DAList.lookup d k of None \<Rightarrow> dflt | Some v \<Rightarrow> v)"

text \<open>\<^verbatim>\<open>d.items()\<close>, in insertion order\<close>
definition dict_items :: "('k, 'v) dict \<Rightarrow> ('k \<times> 'v) list" where
  "dict_items d = DAList.impl_of d"

section \<open>\<^verbatim>\<open>_TensorsAccessed\<close>\<close>

text \<open>
  Each method takes the object and returns it updated.  The calls to \<^verbatim>\<open>logger.info\<close> write
  a diagnostic and change no state; they are left out.
\<close>

definition TensorsAccessed_init :: TensorsAccessed where
  "TensorsAccessed_init = \<lparr>accesses = DAList.empty\<rparr>"

definition create_tensor :: "TensorsAccessed \<Rightarrow> DataPtr \<Rightarrow> StackSummary option \<Rightarrow> TensorsAccessed" where
  "create_tensor ta p st =
     ta\<lparr>accesses := dict_setitem (accesses ta) p
           \<lparr>allocation_stack_trace = st, reads = [], write' = None\<rparr>\<rparr>"

definition delete_tensor :: "TensorsAccessed \<Rightarrow> DataPtr \<Rightarrow> py_error + TensorsAccessed" where
  "delete_tensor ta p =
     (case dict_delitem (accesses ta) p of
        Inl e \<Rightarrow> Inl e
      | Inr d \<Rightarrow> Inr (ta\<lparr>accesses := d\<rparr>))"

definition ensure_tensor_exists :: "TensorsAccessed \<Rightarrow> DataPtr \<Rightarrow> TensorsAccessed" where
  "ensure_tensor_exists ta p =
     (if \<not> dict_contains (accesses ta) p then create_tensor ta p None else ta)"

definition ensure_tensor_does_not_exist :: "TensorsAccessed \<Rightarrow> DataPtr \<Rightarrow> py_error + TensorsAccessed" where
  "ensure_tensor_does_not_exist ta p =
     (if dict_contains (accesses ta) p then delete_tensor ta p else Inr ta)"

definition were_there_reads_since_last_write :: "TensorsAccessed \<Rightarrow> DataPtr \<Rightarrow> py_error + bool" where
  "were_there_reads_since_last_write ta p =
     (case dict_getitem (accesses ta) p of
        Inl e \<Rightarrow> Inl e
      | Inr info \<Rightarrow> Inr (if reads info \<noteq> [] then True else False))"

definition get_allocation_stack_trace :: "TensorsAccessed \<Rightarrow> DataPtr \<Rightarrow> py_error + StackSummary option" where
  "get_allocation_stack_trace ta p =
     (case dict_getitem (accesses ta) p of
        Inl e \<Rightarrow> Inl e
      | Inr info \<Rightarrow> Inr (allocation_stack_trace info))"

definition get_write :: "TensorsAccessed \<Rightarrow> DataPtr \<Rightarrow> py_error + Access option" where
  "get_write ta p =
     (case dict_getitem (accesses ta) p of
        Inl e \<Rightarrow> Inl e
      | Inr info \<Rightarrow> Inr (write' info))"

definition get_reads :: "TensorsAccessed \<Rightarrow> DataPtr \<Rightarrow> py_error + Access list" where
  "get_reads ta p =
     (case dict_getitem (accesses ta) p of
        Inl e \<Rightarrow> Inl e
      | Inr info \<Rightarrow> Inr (reads info))"

definition add_read :: "TensorsAccessed \<Rightarrow> DataPtr \<Rightarrow> Access \<Rightarrow> py_error + TensorsAccessed" where
  "add_read ta p a =
     (case dict_getitem (accesses ta) p of
        Inl e \<Rightarrow> Inl e
      | Inr info \<Rightarrow>
          Inr (ta\<lparr>accesses := dict_setitem (accesses ta) p (info\<lparr>reads := reads info @ [a]\<rparr>)\<rparr>))"

text \<open>
  \<^verbatim>\<open>set_write\<close> is two statements, each looking the tensor up again before assigning one
  attribute of it.
\<close>

definition set_write :: "TensorsAccessed \<Rightarrow> DataPtr \<Rightarrow> Access \<Rightarrow> py_error + TensorsAccessed" where
  "set_write ta p a =
     (case dict_getitem (accesses ta) p of
        Inl e \<Rightarrow> Inl e
      | Inr info \<Rightarrow>
          (let ta1 = ta\<lparr>accesses := dict_setitem (accesses ta) p (info\<lparr>write' := Some a\<rparr>)\<rparr>
           in case dict_getitem (accesses ta1) p of
                Inl e \<Rightarrow> Inl e
              | Inr info1 \<Rightarrow>
                  Inr (ta1\<lparr>accesses := dict_setitem (accesses ta1) p (info1\<lparr>reads := []\<rparr>)\<rparr>)))"

section \<open>\<^verbatim>\<open>StreamSynchronizations\<close>\<close>

definition StreamSynchronizations_init :: StreamSynchronizations where
  "StreamSynchronizations_init =
     \<lparr>current_sync_states = DAList.empty, recorded_sync_states = DAList.empty\<rparr>"

definition create_stream :: "StreamSynchronizations \<Rightarrow> StreamId \<Rightarrow> StreamSynchronizations" where
  "create_stream s st =
     (if dict_contains (current_sync_states s) st then s
      else s\<lparr>current_sync_states := dict_setitem (current_sync_states s) st DAList.empty\<rparr>)"

definition ensure_stream_exists :: "StreamSynchronizations \<Rightarrow> StreamId \<Rightarrow> StreamSynchronizations" where
  "ensure_stream_exists s st =
     (if \<not> dict_contains (current_sync_states s) st then create_stream s st else s)"

text \<open>
  The four event methods call one another in a cycle:
  \<^verbatim>\<open>create_event\<close> \<open>\<rightarrow>\<close> \<^verbatim>\<open>_ensure_event_does_not_exist\<close> \<open>\<rightarrow>\<close> \<^verbatim>\<open>delete_event\<close> \<open>\<rightarrow>\<close>
  \<^verbatim>\<open>_ensure_event_exists\<close> \<open>\<rightarrow>\<close> \<^verbatim>\<open>create_event\<close>.  The two guards test opposite conditions on
  the same table, so the cycle is left after at most three calls.
\<close>

function create_event :: "StreamSynchronizations \<Rightarrow> EventId \<Rightarrow> py_error + StreamSynchronizations"
  and ensure_event_does_not_exist :: "StreamSynchronizations \<Rightarrow> EventId \<Rightarrow> py_error + StreamSynchronizations"
  and delete_event :: "StreamSynchronizations \<Rightarrow> EventId \<Rightarrow> py_error + StreamSynchronizations"
  and ensure_event_exists :: "StreamSynchronizations \<Rightarrow> EventId \<Rightarrow> py_error + StreamSynchronizations"
where
  "create_event s e =
     (case ensure_event_does_not_exist s e of
        Inl x \<Rightarrow> Inl x
      | Inr s1 \<Rightarrow>
          Inr (s1\<lparr>recorded_sync_states := dict_setitem (recorded_sync_states s1) e DAList.empty\<rparr>))"
| "ensure_event_does_not_exist s e =
     (if dict_contains (recorded_sync_states s) e then delete_event s e else Inr s)"
| "delete_event s e =
     (case ensure_event_exists s e of
        Inl x \<Rightarrow> Inl x
      | Inr s1 \<Rightarrow>
          (case dict_delitem (recorded_sync_states s1) e of
             Inl x \<Rightarrow> Inl x
           | Inr d \<Rightarrow> Inr (s1\<lparr>recorded_sync_states := d\<rparr>)))"
| "ensure_event_exists s e =
     (if \<not> dict_contains (recorded_sync_states s) e then create_event s e else Inr s)"
  by pat_completeness auto

termination
  by (relation "measure (\<lambda>x. case x of
        Inl (Inl (s, e)) \<Rightarrow> (if dict_contains (recorded_sync_states s) e then 3 else 1)
      | Inl (Inr (s, e)) \<Rightarrow> (if dict_contains (recorded_sync_states s) e then 2 else 0)
      | Inr (Inl (s, e)) \<Rightarrow> (if dict_contains (recorded_sync_states s) e then 1 else 3)
      | Inr (Inr (s, e)) \<Rightarrow> (if dict_contains (recorded_sync_states s) e then 0 else 2))")
    auto

declare create_event.simps [simp del]
declare ensure_event_does_not_exist.simps [simp del]
declare delete_event.simps [simp del]
declare ensure_event_exists.simps [simp del]

definition update_seq_num :: "StreamSynchronizations \<Rightarrow> StreamId \<Rightarrow> SeqNum \<Rightarrow> py_error + StreamSynchronizations" where
  "update_seq_num s st n =
     (let s1 = ensure_stream_exists s st
      in case dict_getitem (current_sync_states s1) st of
           Inl x \<Rightarrow> Inl x
         | Inr c \<Rightarrow>
             Inr (s1\<lparr>current_sync_states :=
                       dict_setitem (current_sync_states s1) st (dict_setitem c st n)\<rparr>))"

definition record_state :: "StreamSynchronizations \<Rightarrow> EventId \<Rightarrow> StreamId \<Rightarrow> py_error + StreamSynchronizations" where
  "record_state s e st =
     (case ensure_event_exists s e of
        Inl x \<Rightarrow> Inl x
      | Inr s1 \<Rightarrow>
          (let s2 = ensure_stream_exists s1 st
           in case dict_getitem (current_sync_states s2) st of
                Inl x \<Rightarrow> Inl x
              | Inr c \<Rightarrow>
                  Inr (s2\<lparr>recorded_sync_states := dict_setitem (recorded_sync_states s2) e c\<rparr>)))"

text \<open>
  The body of the loop of \<^verbatim>\<open>state_wait_for_event\<close>, run over the items of the recorded
  snapshot.  The iterated dictionary is a copy made by \<^verbatim>\<open>record_state\<close> (or a fresh \<^verbatim>\<open>{}\<close>),
  never the clock that the body assigns to, so the items are fixed when the loop starts.
  Both occurrences of \<^verbatim>\<open>self.current_sync_states[stream]\<close> in the assignment read the same
  entry of the same table: one lookup stands for the two.
\<close>

fun state_wait_for_event_loop ::
  "StreamSynchronizations \<Rightarrow> StreamId \<Rightarrow> (StreamId \<times> SeqNum) list \<Rightarrow> py_error + StreamSynchronizations" where
  "state_wait_for_event_loop s st [] = Inr s"
| "state_wait_for_event_loop s st ((other_stream, n) # rest) =
     (case dict_getitem (current_sync_states s) st of
        Inl x \<Rightarrow> Inl x
      | Inr c \<Rightarrow>
          state_wait_for_event_loop
            (s\<lparr>current_sync_states :=
                 dict_setitem (current_sync_states s) st
                   (dict_setitem c other_stream (max (dict_get c other_stream (- 1)) n))\<rparr>)
            st rest)"

definition state_wait_for_event :: "StreamSynchronizations \<Rightarrow> StreamId \<Rightarrow> EventId \<Rightarrow> py_error + StreamSynchronizations" where
  "state_wait_for_event s st e =
     (case ensure_event_exists s e of
        Inl x \<Rightarrow> Inl x
      | Inr s1 \<Rightarrow>
          (let s2 = ensure_stream_exists s1 st
           in case dict_getitem (recorded_sync_states s2) e of
                Inl x \<Rightarrow> Inl x
              | Inr snapshot \<Rightarrow> state_wait_for_event_loop s2 st (dict_items snapshot)))"

text \<open>The query returns its answer together with the table, which the two back-fills may change.\<close>

definition is_ordered_after ::
  "StreamSynchronizations \<Rightarrow> StreamId \<Rightarrow> SeqNum \<Rightarrow> StreamId \<Rightarrow> py_error + (bool \<times> StreamSynchronizations)" where
  "is_ordered_after s current_stream n other_stream =
     (let s1 = ensure_stream_exists s current_stream;
          s2 = ensure_stream_exists s1 other_stream
      in case dict_getitem (current_sync_states s2) current_stream of
           Inl x \<Rightarrow> Inl x
         | Inr c \<Rightarrow> Inr (n \<le> dict_get c other_stream (- 1), s2))"

section \<open>\<^verbatim>\<open>EventHandler\<close>\<close>

definition EventHandler_init :: EventHandler where
  "EventHandler_init =
     \<lparr>tensors_accessed = TensorsAccessed_init, syncs = StreamSynchronizations_init, seq_num = 0\<rparr>"

text \<open>
  \<^verbatim>\<open>check_conflict\<close> is a closure over \<^verbatim>\<open>self\<close> and the local \<^verbatim>\<open>error_list\<close>; here both are
  passed in and returned.
\<close>

definition check_conflict ::
  "EventHandler \<times> SynchronizationError list \<Rightarrow> DataPtr \<Rightarrow> Access \<Rightarrow> Access option
     \<Rightarrow> py_error + (EventHandler \<times> SynchronizationError list)" where
  "check_conflict hl p cur prev_opt =
     (case prev_opt of
        None \<Rightarrow> Inr hl
      | Some prev \<Rightarrow>
          (case is_ordered_after (syncs (fst hl)) (stream cur) (Access.seq_num prev) (stream prev) of
             Inl x \<Rightarrow> Inl x
           | Inr (ordered, s') \<Rightarrow>
               (let h1 = (fst hl)\<lparr>syncs := s'\<rparr>
                in if \<not> ordered then
                     (case get_allocation_stack_trace (tensors_accessed h1) p of
                        Inl x \<Rightarrow> Inl x
                      | Inr alloc \<Rightarrow>
                          Inr (h1, snd hl @ [UnsynchronizedAccessError p alloc cur prev]))
                   else Inr (h1, snd hl))))"

text \<open>The inner loop \<^verbatim>\<open>for previous_access in self.tensors_accessed.get_reads(data_ptr)\<close>.\<close>

fun check_conflict_reads ::
  "EventHandler \<times> SynchronizationError list \<Rightarrow> DataPtr \<Rightarrow> Access \<Rightarrow> Access list
     \<Rightarrow> py_error + (EventHandler \<times> SynchronizationError list)" where
  "check_conflict_reads hl p cur [] = Inr hl"
| "check_conflict_reads hl p cur (prev # rest) =
     (case check_conflict hl p cur (Some prev) of
        Inl x \<Rightarrow> Inl x
      | Inr hl1 \<Rightarrow> check_conflict_reads hl1 p cur rest)"

text \<open>
  One iteration of \<^verbatim>\<open>for data_ptr in read_only\<close>.  The stack trace is captured once per launch
  from the interpreter's call stack; it is an argument here.
\<close>

definition read_only_step ::
  "StreamId \<Rightarrow> string \<Rightarrow> (DataPtr, string list) dict \<Rightarrow> StackSummary
     \<Rightarrow> EventHandler \<times> SynchronizationError list \<Rightarrow> DataPtr
     \<Rightarrow> py_error + (EventHandler \<times> SynchronizationError list)" where
  "read_only_step strm opr tensor_names stack hl p =
     (let h1 = (fst hl)\<lparr>tensors_accessed := ensure_tensor_exists (tensors_accessed (fst hl)) p\<rparr>
      in case dict_getitem tensor_names p of
           Inl x \<Rightarrow> Inl x
         | Inr nms \<Rightarrow>
             (let cur =
                    \<lparr>type = READ, seq_num = EventHandler.seq_num h1, stream = strm,
                     operator = opr, names = nms, stack_trace = stack\<rparr>
              in case get_write (tensors_accessed h1) p of
                   Inl x \<Rightarrow> Inl x
                 | Inr w \<Rightarrow>
                     (case check_conflict (h1, snd hl) p cur w of
                        Inl x \<Rightarrow> Inl x
                      | Inr (h2, errs) \<Rightarrow>
                          (case add_read (tensors_accessed h2) p cur of
                             Inl x \<Rightarrow> Inl x
                           | Inr ta \<Rightarrow> Inr (h2\<lparr>tensors_accessed := ta\<rparr>, errs)))))"

text \<open>One iteration of \<^verbatim>\<open>for data_ptr in read_write\<close>.\<close>

definition read_write_step ::
  "StreamId \<Rightarrow> string \<Rightarrow> (DataPtr, string list) dict \<Rightarrow> StackSummary
     \<Rightarrow> EventHandler \<times> SynchronizationError list \<Rightarrow> DataPtr
     \<Rightarrow> py_error + (EventHandler \<times> SynchronizationError list)" where
  "read_write_step strm opr tensor_names stack hl p =
     (let h1 = (fst hl)\<lparr>tensors_accessed := ensure_tensor_exists (tensors_accessed (fst hl)) p\<rparr>
      in case dict_getitem tensor_names p of
           Inl x \<Rightarrow> Inl x
         | Inr nms \<Rightarrow>
             (let cur =
                    \<lparr>type = WRITE, seq_num = EventHandler.seq_num h1, stream = strm,
                     operator = opr, names = nms, stack_trace = stack\<rparr>
              in case were_there_reads_since_last_write (tensors_accessed h1) p of
                   Inl x \<Rightarrow> Inl x
                 | Inr any_reads \<Rightarrow>
                     (case (if any_reads then
                              (case get_reads (tensors_accessed h1) p of
                                 Inl x \<Rightarrow> Inl x
                               | Inr rs \<Rightarrow> check_conflict_reads (h1, snd hl) p cur rs)
                            else
                              (case get_write (tensors_accessed h1) p of
                                 Inl x \<Rightarrow> Inl x
                               | Inr w \<Rightarrow> check_conflict (h1, snd hl) p cur w)) of
                        Inl x \<Rightarrow> Inl x
                      | Inr (h2, errs) \<Rightarrow>
                          (case set_write (tensors_accessed h2) p cur of
                             Inl x \<Rightarrow> Inl x
                           | Inr ta \<Rightarrow> Inr (h2\<lparr>tensors_accessed := ta\<rparr>, errs)))))"

text \<open>A \<^verbatim>\<open>for\<close> loop over a list of data pointers, left at the first exception.\<close>

fun for_each ::
  "('s \<Rightarrow> DataPtr \<Rightarrow> py_error + 's) \<Rightarrow> 's \<Rightarrow> DataPtr list \<Rightarrow> py_error + 's" where
  "for_each body s [] = Inr s"
| "for_each body s (p # ps) =
     (case body s p of
        Inl x \<Rightarrow> Inl x
      | Inr s1 \<Rightarrow> for_each body s1 ps)"

definition handle_kernel_launch ::
  "EventHandler \<Rightarrow> StreamId \<Rightarrow> DataPtr list \<Rightarrow> DataPtr list \<Rightarrow> string
     \<Rightarrow> (DataPtr, string list) dict \<Rightarrow> StackSummary
     \<Rightarrow> py_error + (SynchronizationError list \<times> EventHandler)" where
  "handle_kernel_launch h strm read_only read_write opr tensor_names stack =
     (let error_list = [];
          h1 = h\<lparr>seq_num := EventHandler.seq_num h + 1\<rparr>
      in case update_seq_num (syncs h1) strm (EventHandler.seq_num h1) of
           Inl x \<Rightarrow> Inl x
         | Inr s' \<Rightarrow>
             (case for_each (read_only_step strm opr tensor_names stack)
                     (h1\<lparr>syncs := s'\<rparr>, error_list) read_only of
                Inl x \<Rightarrow> Inl x
              | Inr hl1 \<Rightarrow>
                  (case for_each (read_write_step strm opr tensor_names stack) hl1 read_write of
                     Inl x \<Rightarrow> Inl x
                   | Inr (h2, errs) \<Rightarrow> Inr (errs, h2))))"

definition handle_event_creation :: "EventHandler \<Rightarrow> EventId \<Rightarrow> py_error + EventHandler" where
  "handle_event_creation h e =
     (case create_event (syncs h) e of Inl x \<Rightarrow> Inl x | Inr s' \<Rightarrow> Inr (h\<lparr>syncs := s'\<rparr>))"

definition handle_event_deletion :: "EventHandler \<Rightarrow> EventId \<Rightarrow> py_error + EventHandler" where
  "handle_event_deletion h e =
     (case delete_event (syncs h) e of Inl x \<Rightarrow> Inl x | Inr s' \<Rightarrow> Inr (h\<lparr>syncs := s'\<rparr>))"

definition handle_event_record :: "EventHandler \<Rightarrow> EventId \<Rightarrow> StreamId \<Rightarrow> py_error + EventHandler" where
  "handle_event_record h e strm =
     (case record_state (syncs h) e strm of Inl x \<Rightarrow> Inl x | Inr s' \<Rightarrow> Inr (h\<lparr>syncs := s'\<rparr>))"

definition handle_event_wait :: "EventHandler \<Rightarrow> EventId \<Rightarrow> StreamId \<Rightarrow> py_error + EventHandler" where
  "handle_event_wait h e strm =
     (case state_wait_for_event (syncs h) strm e of
        Inl x \<Rightarrow> Inl x
      | Inr s' \<Rightarrow> Inr (h\<lparr>syncs := s'\<rparr>))"

definition handle_memory_allocation :: "EventHandler \<Rightarrow> DataPtr \<Rightarrow> StackSummary \<Rightarrow> py_error + EventHandler" where
  "handle_memory_allocation h p stack =
     (case ensure_tensor_does_not_exist (tensors_accessed h) p of
        Inl x \<Rightarrow> Inl x
      | Inr ta \<Rightarrow> Inr (h\<lparr>tensors_accessed := create_tensor ta p (Some stack)\<rparr>))"

definition handle_memory_deallocation :: "EventHandler \<Rightarrow> DataPtr \<Rightarrow> py_error + EventHandler" where
  "handle_memory_deallocation h p =
     (case delete_tensor (ensure_tensor_exists (tensors_accessed h) p) p of
        Inl x \<Rightarrow> Inl x
      | Inr ta \<Rightarrow> Inr (h\<lparr>tensors_accessed := ta\<rparr>))"

definition handle_stream_creation :: "EventHandler \<Rightarrow> StreamId \<Rightarrow> EventHandler" where
  "handle_stream_creation h strm = h\<lparr>syncs := create_stream (syncs h) strm\<rparr>"

section \<open>Traces\<close>

text \<open>
  The handlers are registered as callbacks and invoked one at a time.  A trace is the list
  of these invocations with their arguments; an invocation that captures a stack trace
  carries the captured value.  An exception leaves the handler and reaches the caller, which
  ends the run.
\<close>

datatype trace_event =
    KernelLaunch StreamId "DataPtr list" "DataPtr list" string "(DataPtr, string list) dict" StackSummary
  | EventCreation EventId
  | EventDeletion EventId
  | EventRecord EventId StreamId
  | EventWait EventId StreamId
  | MemoryAllocation DataPtr StackSummary
  | MemoryDeallocation DataPtr
  | StreamCreation StreamId

text \<open>
  One invocation: the value returned (the error list of a launch, \<open>None\<close> for the handlers
  that return nothing) and the handler afterwards.
\<close>

fun handle :: "EventHandler \<Rightarrow> trace_event \<Rightarrow> py_error + (SynchronizationError list option \<times> EventHandler)" where
  "handle h (KernelLaunch strm read_only read_write opr tensor_names stack) =
     (case handle_kernel_launch h strm read_only read_write opr tensor_names stack of
        Inl x \<Rightarrow> Inl x
      | Inr (errs, h') \<Rightarrow> Inr (Some errs, h'))"
| "handle h (EventCreation e) =
     (case handle_event_creation h e of Inl x \<Rightarrow> Inl x | Inr h' \<Rightarrow> Inr (None, h'))"
| "handle h (EventDeletion e) =
     (case handle_event_deletion h e of Inl x \<Rightarrow> Inl x | Inr h' \<Rightarrow> Inr (None, h'))"
| "handle h (EventRecord e strm) =
     (case handle_event_record h e strm of Inl x \<Rightarrow> Inl x | Inr h' \<Rightarrow> Inr (None, h'))"
| "handle h (EventWait e strm) =
     (case handle_event_wait h e strm of Inl x \<Rightarrow> Inl x | Inr h' \<Rightarrow> Inr (None, h'))"
| "handle h (MemoryAllocation p stack) =
     (case handle_memory_allocation h p stack of Inl x \<Rightarrow> Inl x | Inr h' \<Rightarrow> Inr (None, h'))"
| "handle h (MemoryDeallocation p) =
     (case handle_memory_deallocation h p of Inl x \<Rightarrow> Inl x | Inr h' \<Rightarrow> Inr (None, h'))"
| "handle h (StreamCreation strm) = Inr (None, handle_stream_creation h strm)"

text \<open>A run returns what each invocation returned, in order, and the final handler.\<close>

fun run :: "EventHandler \<Rightarrow> trace_event list \<Rightarrow> py_error + (SynchronizationError list option list \<times> EventHandler)" where
  "run h [] = Inr ([], h)"
| "run h (ev # evs) =
     (case handle h ev of
        Inl x \<Rightarrow> Inl x
      | Inr (out, h1) \<Rightarrow>
          (case run h1 evs of
             Inl x \<Rightarrow> Inl x
           | Inr (outs, h2) \<Rightarrow> Inr (out # outs, h2)))"

section \<open>Reading the sync table\<close>

text \<open>
  The vector clock \<^verbatim>\<open>current_sync_states[st]\<close>, where a stream that is not in the table reads as
  the empty clock that back-filling creates for it; and the entry of a clock with the
  default \<open>-1\<close> of \<^verbatim>\<open>.get(t, -1)\<close> for a missing key.  Likewise for the snapshot of an event.
\<close>

definition clock_of :: "StreamSynchronizations \<Rightarrow> StreamId \<Rightarrow> (StreamId, SeqNum) dict" where
  "clock_of s st =
     (case DAList.lookup (current_sync_states s) st of None \<Rightarrow> DAList.empty | Some c \<Rightarrow> c)"

definition current_value :: "StreamSynchronizations \<Rightarrow> StreamId \<Rightarrow> StreamId \<Rightarrow> SeqNum" where
  "current_value s st t = dict_get (clock_of s st) t (- 1)"

definition snapshot_of :: "StreamSynchronizations \<Rightarrow> EventId \<Rightarrow> (StreamId, SeqNum) dict" where
  "snapshot_of s e =
     (case DAList.lookup (recorded_sync_states s) e of None \<Rightarrow> DAList.empty | Some c \<Rightarrow> c)"

definition recorded_value :: "StreamSynchronizations \<Rightarrow> EventId \<Rightarrow> StreamId \<Rightarrow> SeqNum" where
  "recorded_value s e t = dict_get (snapshot_of s e) t (- 1)"

section \<open>Tables that the methods can build\<close>

text \<open>
  The sync tables that arise from the empty table by calls of the methods of
  \<^verbatim>\<open>StreamSynchronizations\<close>, with any arguments.
\<close>

inductive sync_table_reachable :: "StreamSynchronizations \<Rightarrow> bool" where
  init: "sync_table_reachable StreamSynchronizations_init"
| create_stream: "sync_table_reachable s \<Longrightarrow> sync_table_reachable (create_stream s st)"
| create_event: "sync_table_reachable s \<Longrightarrow> create_event s e = Inr s' \<Longrightarrow> sync_table_reachable s'"
| delete_event: "sync_table_reachable s \<Longrightarrow> delete_event s e = Inr s' \<Longrightarrow> sync_table_reachable s'"
| update_seq_num: "sync_table_reachable s \<Longrightarrow> update_seq_num s st n = Inr s' \<Longrightarrow> sync_table_reachable s'"
| record_state: "sync_table_reachable s \<Longrightarrow> record_state s e st = Inr s' \<Longrightarrow> sync_table_reachable s'"
| state_wait_for_event:
    "sync_table_reachable s \<Longrightarrow> state_wait_for_event s st e = Inr s' \<Longrightarrow> sync_table_reachable s'"
| is_ordered_after:
    "sync_table_reachable s \<Longrightarrow> is_ordered_after s a n b = Inr (r, s') \<Longrightarrow> sync_table_reachable s'"

text \<open>Every stream that is a key of a clock or of a snapshot has a clock of its own in the table.\<close>

definition clock_keys_known :: "StreamSynchronizations \<Rightarrow> bool" where
  "clock_keys_known s \<longleftrightarrow>
     (\<forall>u t. dict_contains (clock_of s u) t \<longrightarrow> dict_contains (current_sync_states s) t) \<and>
     (\<forall>e t. dict_contains (snapshot_of s e) t \<longrightarrow> dict_contains (current_sync_states s) t)"

section \<open>What a launch checks, in the words of the specification\<close>

text \<open>
  The state of a buffer as a launch sees it: the state in the log, or the state that
  back-filling creates for a buffer that is not in the log.
\<close>

definition tensor_info :: "TensorsAccessed \<Rightarrow> DataPtr \<Rightarrow> TensorInfo" where
  "tensor_info ta p =
     dict_get (accesses ta) p \<lparr>allocation_stack_trace = None, reads = [], write' = None\<rparr>"

text \<open>A read is checked against the last writer, if there is one.\<close>

definition checked_by_read :: "TensorInfo \<Rightarrow> Access list" where
  "checked_by_read info = (case write' info of None \<Rightarrow> [] | Some w \<Rightarrow> [w])"

text \<open>
  A write is checked against each reader since the last write when there is one, and not
  against the last writer; otherwise against the last writer only, if there is one.
\<close>

definition checked_by_write :: "TensorInfo \<Rightarrow> Access list" where
  "checked_by_write info = (if reads info \<noteq> [] then reads info else checked_by_read info)"

text \<open>
  The conflict check reports the pair when the ordering predicate is false, that is when the
  clock of the current stream does not cover the previous access.
\<close>

definition unordered :: "StreamSynchronizations \<Rightarrow> Access \<Rightarrow> Access \<Rightarrow> bool" where
  "unordered s cur prev \<longleftrightarrow>
     \<not> Access.seq_num prev \<le> current_value s (stream cur) (stream prev)"

definition conflict_reports ::
  "StreamSynchronizations \<Rightarrow> DataPtr \<Rightarrow> StackSummary option \<Rightarrow> Access \<Rightarrow> Access list
     \<Rightarrow> SynchronizationError list" where
  "conflict_reports s p alloc cur prevs =
     map (UnsynchronizedAccessError p alloc cur) (filter (unordered s cur) prevs)"

text \<open>The table after the back-fills of the ordering queries against a list of accesses.\<close>

fun backfill_streams :: "StreamSynchronizations \<Rightarrow> StreamId \<Rightarrow> Access list \<Rightarrow> StreamSynchronizations" where
  "backfill_streams s strm [] = s"
| "backfill_streams s strm (prev # rest) =
     backfill_streams (ensure_stream_exists (ensure_stream_exists s strm) (stream prev)) strm rest"

section \<open>Invariants of a run\<close>

text \<open>The entry \<^verbatim>\<open>current_sync_states[t][t]\<close>, \<open>None\<close> when it is unset.\<close>

definition self_clock :: "StreamSynchronizations \<Rightarrow> StreamId \<Rightarrow> SeqNum option" where
  "self_clock s t = DAList.lookup (clock_of s t) t"

text \<open>
  The sequence number of the most recent kernel launch on a stream in a trace, when the
  counter is \<open>n\<close> before the trace: every launch takes the next number.  \<open>None\<close> when the
  trace has no launch on the stream.
\<close>

fun last_launch :: "SeqNum \<Rightarrow> trace_event list \<Rightarrow> StreamId \<Rightarrow> SeqNum option" where
  "last_launch n [] s = None"
| "last_launch n (KernelLaunch strm read_only read_write opr tensor_names stack # evs) s =
     (case last_launch (n + 1) evs s of
        Some m \<Rightarrow> Some m
      | None \<Rightarrow> (if strm = s then Some (n + 1) else None))"
| "last_launch n (ev # evs) s = last_launch n evs s"

text \<open>A report cites two accesses when they are its previous and its current access.\<close>

definition cites :: "SynchronizationError \<Rightarrow> Access \<Rightarrow> Access \<Rightarrow> bool" where
  "cites r a b \<longleftrightarrow>
     (previous_access r = a \<and> current_access r = b) \<or>
     (previous_access r = b \<and> current_access r = a)"

text \<open>Two tables with the same clocks and snapshots, back-filled empty ones aside.\<close>

definition same_clocks :: "StreamSynchronizations \<Rightarrow> StreamSynchronizations \<Rightarrow> bool" where
  "same_clocks s s' \<longleftrightarrow>
     (\<forall>u. clock_of s' u = clock_of s u) \<and> (\<forall>e. snapshot_of s' e = snapshot_of s e)"

text \<open>
  Every entry of a clock or a snapshot is a sequence number that has been given out: it is
  not negative, not ahead of the stream's own entry, and that is not ahead of the counter.
\<close>

definition clocks_bounded :: "StreamSynchronizations \<Rightarrow> SeqNum \<Rightarrow> bool" where
  "clocks_bounded s n \<longleftrightarrow>
     (\<forall>u t v. DAList.lookup (clock_of s u) t = Some v \<longrightarrow>
        (\<exists>w. self_clock s t = Some w \<and> 0 \<le> v \<and> v \<le> w)) \<and>
     (\<forall>e t v. DAList.lookup (snapshot_of s e) t = Some v \<longrightarrow>
        (\<exists>w. self_clock s t = Some w \<and> 0 \<le> v \<and> v \<le> w)) \<and>
     (\<forall>t w. self_clock s t = Some w \<longrightarrow> 0 \<le> w \<and> w \<le> n)"

text \<open>No access in the log has a sequence number ahead of the counter.\<close>

definition log_bounded :: "TensorsAccessed \<Rightarrow> SeqNum \<Rightarrow> bool" where
  "log_bounded ta n \<longleftrightarrow>
     (\<forall>p info a. DAList.lookup (accesses ta) p = Some info \<and>
                 (a \<in> set (reads info) \<or> write' info = Some a) \<longrightarrow> Access.seq_num a \<le> n)"

text \<open>
  What holds of the handler and the error list throughout the two loops of a launch on
  stream \<open>strm\<close> with sequence number \<open>n\<close>, where \<open>s0\<close> is the sync table after the bump.
\<close>

definition launch_frame :: "StreamSynchronizations \<Rightarrow> SeqNum \<Rightarrow> EventHandler \<times> SynchronizationError list \<Rightarrow> bool" where
  "launch_frame s0 n hl \<longleftrightarrow>
     EventHandler.seq_num (fst hl) = n \<and> same_clocks s0 (syncs (fst hl))"

definition launch_inv :: "StreamSynchronizations \<Rightarrow> SeqNum \<Rightarrow> EventHandler \<times> SynchronizationError list \<Rightarrow> bool" where
  "launch_inv s0 n hl \<longleftrightarrow>
     launch_frame s0 n hl \<and>
     log_bounded (tensors_accessed (fst hl)) n \<and>
     (\<forall>r \<in> set (snd hl). stream (previous_access r) \<noteq> stream (current_access r))"

text \<open>What holds of the handler between any two invocations.\<close>

definition handler_inv :: "EventHandler \<Rightarrow> bool" where
  "handler_inv h \<longleftrightarrow>
     0 \<le> EventHandler.seq_num h \<and>
     clocks_bounded (syncs h) (EventHandler.seq_num h) \<and>
     log_bounded (tensors_accessed h) (EventHandler.seq_num h)"

section \<open>Equality up to captured stack traces\<close>

text \<open>
  The handler receives the arguments of a call and captures the stack trace itself, so two
  replays of the same calls need not capture the same stacks.  Forgetting the captured
  stacks (every one becomes the empty stack; an allocation stack that was never captured
  stays \<open>None\<close>) leaves what a call, a report and the handler's state are apart from them.
\<close>

lift_definition dict_map_values :: "('v \<Rightarrow> 'w) \<Rightarrow> ('k, 'v) dict \<Rightarrow> ('k, 'w) dict"
  is "\<lambda>f. AList.map_ran (\<lambda>_. f)"
  by (simp add: distinct_map_ran)

definition strip_stack :: "StackSummary option \<Rightarrow> StackSummary option" where
  "strip_stack st = map_option (\<lambda>_. []) st"

definition strip_access :: "Access \<Rightarrow> Access" where
  "strip_access a = a\<lparr>stack_trace := []\<rparr>"

definition strip_info :: "TensorInfo \<Rightarrow> TensorInfo" where
  "strip_info info =
     \<lparr>allocation_stack_trace = strip_stack (allocation_stack_trace info),
      reads = map strip_access (reads info),
      write' = map_option strip_access (write' info)\<rparr>"

definition strip_log :: "TensorsAccessed \<Rightarrow> TensorsAccessed" where
  "strip_log ta = \<lparr>accesses = dict_map_values strip_info (accesses ta)\<rparr>"

definition strip_handler :: "EventHandler \<Rightarrow> EventHandler" where
  "strip_handler h = h\<lparr>tensors_accessed := strip_log (tensors_accessed h)\<rparr>"

fun strip_report :: "SynchronizationError \<Rightarrow> SynchronizationError" where
  "strip_report (UnsynchronizedAccessError p alloc cur prev) =
     UnsynchronizedAccessError p (strip_stack alloc) (strip_access cur) (strip_access prev)"

fun strip_event :: "trace_event \<Rightarrow> trace_event" where
  "strip_event (KernelLaunch strm read_only read_write opr tensor_names stack) =
     KernelLaunch strm read_only read_write opr tensor_names []"
| "strip_event (MemoryAllocation p stack) = MemoryAllocation p []"
| "strip_event ev = ev"

definition strip_loop_state ::
  "EventHandler \<times> SynchronizationError list \<Rightarrow> EventHandler \<times> SynchronizationError list" where
  "strip_loop_state hl = (strip_handler (fst hl), map strip_report (snd hl))"

text \<open>What a run returns, the captured stacks forgotten: the exception, or the reports of each
  launch and the final handler.\<close>

definition strip_run ::
  "py_error + (SynchronizationError list option list \<times> EventHandler)
     \<Rightarrow> py_error + (SynchronizationError list option list \<times> EventHandler)" where
  "strip_run res =
     (case res of
        Inl x \<Rightarrow> Inl x
      | Inr (outs, h) \<Rightarrow> Inr (map (map_option (map strip_report)) outs, strip_handler h))"

text \<open>
  The launches of a trace name their buffers when \<^verbatim>\<open>tensor_names\<close> has every data pointer of
  the two lists as a key, as the dispatch mode that calls the handler arranges.
\<close>

fun names_given :: "trace_event \<Rightarrow> bool" where
  "names_given (KernelLaunch strm read_only read_write opr tensor_names stack) =
     list_all (dict_contains tensor_names) (read_only @ read_write)"
| "names_given ev = True"

section \<open>A launch, in the words of the specification\<close>

text \<open>
  The access that a launch on stream \<open>strm\<close> constructs for a buffer.  The argument names are
  \<^verbatim>\<open>tensor_names[data_ptr]\<close>; the default of \<open>dict_get\<close> is never read where the launch names
  the buffer.
\<close>

definition new_access ::
  "AccessType \<Rightarrow> EventHandler \<Rightarrow> StreamId \<Rightarrow> string \<Rightarrow> (DataPtr, string list) dict
     \<Rightarrow> StackSummary \<Rightarrow> DataPtr \<Rightarrow> Access" where
  "new_access ty h strm opr tensor_names stack p =
     \<lparr>type = ty, seq_num = EventHandler.seq_num h, stream = strm, operator = opr,
      names = dict_get tensor_names p [], stack_trace = stack\<rparr>"

text \<open>
  Steps 1 and 2 of the launch algorithm: the counter is incremented to \<open>n\<close>, the stream is
  back-filled and its own entry is set to \<open>n\<close>.
\<close>

definition launch_start :: "EventHandler \<Rightarrow> StreamId \<Rightarrow> EventHandler" where
  "launch_start h strm =
     (let n = EventHandler.seq_num h + 1;
          s1 = ensure_stream_exists (syncs h) strm
      in h\<lparr>seq_num := n,
           syncs := s1\<lparr>current_sync_states :=
                        dict_setitem (current_sync_states s1) strm
                          (dict_setitem (clock_of (syncs h) strm) strm n)\<rparr>\<rparr>)"

text \<open>
  Step 5 for one buffer of the read-only list: the new \<^verbatim>\<open>READ\<close> access is checked against
  the last writer, then appended to the reads of the buffer.
\<close>

definition read_policy_step ::
  "StreamId \<Rightarrow> string \<Rightarrow> (DataPtr, string list) dict \<Rightarrow> StackSummary
     \<Rightarrow> EventHandler \<times> SynchronizationError list \<Rightarrow> DataPtr
     \<Rightarrow> EventHandler \<times> SynchronizationError list" where
  "read_policy_step strm opr tensor_names stack hl p =
     (let h = fst hl;
          ta1 = ensure_tensor_exists (tensors_accessed h) p;
          info = tensor_info (tensors_accessed h) p;
          cur = new_access READ h strm opr tensor_names stack p
      in (h\<lparr>tensors_accessed :=
              ta1\<lparr>accesses := dict_setitem (accesses ta1) p (info\<lparr>reads := reads info @ [cur]\<rparr>)\<rparr>,
            syncs := backfill_streams (syncs h) strm (checked_by_read info)\<rparr>,
          snd hl @ conflict_reports (syncs h) p (allocation_stack_trace info) cur
                     (checked_by_read info)))"

text \<open>
  Step 6 for one buffer of the read-write list: the new \<^verbatim>\<open>WRITE\<close> access is checked against
  the accesses of \<open>checked_by_write\<close>, then it becomes the last writer and the reads are
  cleared.
\<close>

definition write_policy_step ::
  "StreamId \<Rightarrow> string \<Rightarrow> (DataPtr, string list) dict \<Rightarrow> StackSummary
     \<Rightarrow> EventHandler \<times> SynchronizationError list \<Rightarrow> DataPtr
     \<Rightarrow> EventHandler \<times> SynchronizationError list" where
  "write_policy_step strm opr tensor_names stack hl p =
     (let h = fst hl;
          ta1 = ensure_tensor_exists (tensors_accessed h) p;
          info = tensor_info (tensors_accessed h) p;
          cur = new_access WRITE h strm opr tensor_names stack p
      in (h\<lparr>tensors_accessed :=
              ta1\<lparr>accesses :=
                    dict_setitem (accesses ta1) p (info\<lparr>write' := Some cur, reads := []\<rparr>)\<rparr>,
            syncs := backfill_streams (syncs h) strm (checked_by_write info)\<rparr>,
          snd hl @ conflict_reports (syncs h) p (allocation_stack_trace info) cur
                     (checked_by_write info)))"

section \<open>Facts about dictionaries\<close>

lemma lookup_setitem [simp]:
  "DAList.lookup (dict_setitem d k v) k' = (if k' = k then Some v else DAList.lookup d k')"
  by (simp add: dict_setitem_def lookup_update)

lemma dict_contains_setitem [simp]:
  "dict_contains (dict_setitem d k v) k' = (k' = k \<or> dict_contains d k')"
  by (simp add: dict_contains_def)

lemma dict_contains_empty [simp]: "\<not> dict_contains DAList.empty k"
  by (simp add: dict_contains_def)

lemma dict_getitem_setitem [simp]:
  "dict_getitem (dict_setitem d k v) k' = (if k' = k then Inr v else dict_getitem d k')"
  by (simp add: dict_getitem_def)

lemma dict_setitem_setitem [simp]:
  "dict_setitem (dict_setitem d k v) k v' = dict_setitem d k v'"
  by (simp add: dict_setitem_def)

lemma dict_getitem_Inr_iff: "dict_getitem d k = Inr v \<longleftrightarrow> DAList.lookup d k = Some v"
  by (simp add: dict_getitem_def split: option.splits)

lemma dict_getitem_Inl_iff: "dict_getitem d k = Inl x \<longleftrightarrow> \<not> dict_contains d k"
  by (cases x) (simp add: dict_getitem_def dict_contains_def split: option.splits)

lemma dict_contains_getitem: "dict_contains d k \<Longrightarrow> \<exists>v. dict_getitem d k = Inr v"
  by (auto simp: dict_getitem_def dict_contains_def)

lemma delete_setitem_same: "DAList.delete k (dict_setitem d k v) = DAList.delete k d"
  unfolding dict_setitem_def
  by (simp add: alist_eq_iff delete.rep_eq update.rep_eq delete_update_same)

lemma delete_absent: "\<not> dict_contains d k \<Longrightarrow> DAList.delete k d = d"
  by (simp add: alist_eq_iff delete.rep_eq dict_contains_def lookup.rep_eq map_of_eq_None_iff)

section \<open>The access log\<close>

lemma set_write_eq:
  "dict_getitem (accesses ta) b = Inr info \<Longrightarrow>
   set_write ta b a =
     Inr (ta\<lparr>accesses := dict_setitem (accesses ta) b (info\<lparr>write' := Some a, reads := []\<rparr>)\<rparr>)"
  by (simp add: set_write_def Let_def)

text \<open>
  Claim C6.  For a buffer \<open>b\<close> that is present in the access log and any access \<open>a\<close>,
  \<^verbatim>\<open>set_write(b, a)\<close> returns, and in the log it leaves the reads since the last write of
  \<open>b\<close> are the empty list and the last write of \<open>b\<close> is \<open>a\<close>.
\<close>

theorem C6_set_write_clears_readers:
  assumes "dict_contains (accesses ta) b"
  shows "\<exists>ta'. set_write ta b a = Inr ta' \<and> get_reads ta' b = Inr [] \<and> get_write ta' b = Inr (Some a)"
proof -
  from dict_contains_getitem [OF assms]
  obtain info where info: "dict_getitem (accesses ta) b = Inr info" ..
  let ?ta' = "ta\<lparr>accesses := dict_setitem (accesses ta) b (info\<lparr>write' := Some a, reads := []\<rparr>)\<rparr>"
  have 1: "set_write ta b a = Inr ?ta'" using info by (rule set_write_eq)
  have 2: "get_reads ?ta' b = Inr []" by (simp add: get_reads_def)
  have 3: "get_write ?ta' b = Inr (Some a)" by (simp add: get_write_def)
  from 1 2 3 show ?thesis by (intro exI [of _ ?ta'] conjI)
qed

theorem C6_set_write_clears_readers_witness:
  "dict_contains (accesses (create_tensor TensorsAccessed_init 11 None)) 11 \<and>
   (\<exists>ta'. set_write (create_tensor TensorsAccessed_init 11 None) 11
             \<lparr>type = WRITE, seq_num = 1, stream = 0, operator = ''op'', names = [''x''],
              stack_trace = []\<rparr> = Inr ta' \<and>
          get_reads ta' 11 = Inr [] \<and>
          get_write ta' 11 =
            Inr (Some \<lparr>type = WRITE, seq_num = 1, stream = 0, operator = ''op'', names = [''x''],
                       stack_trace = []\<rparr>))"
proof -
  have h: "dict_contains (accesses (create_tensor TensorsAccessed_init 11 None)) 11"
    by (simp add: create_tensor_def TensorsAccessed_init_def)
  from h C6_set_write_clears_readers [OF h] show ?thesis by (rule conjI)
qed

section \<open>The sync table\<close>

subsection \<open>The event methods in closed form\<close>

lemma ensure_event_exists_present:
  "dict_contains (recorded_sync_states s) e \<Longrightarrow> ensure_event_exists s e = Inr s"
  by (simp add: ensure_event_exists.simps)

lemma ensure_event_does_not_exist_absent:
  "\<not> dict_contains (recorded_sync_states s) e \<Longrightarrow> ensure_event_does_not_exist s e = Inr s"
  by (simp add: ensure_event_does_not_exist.simps)

lemma delete_event_present:
  "dict_contains (recorded_sync_states s) e \<Longrightarrow>
   delete_event s e = Inr (s\<lparr>recorded_sync_states := DAList.delete e (recorded_sync_states s)\<rparr>)"
  by (simp add: delete_event.simps ensure_event_exists_present dict_delitem_def)

lemma create_event_absent:
  "\<not> dict_contains (recorded_sync_states s) e \<Longrightarrow>
   create_event s e =
     Inr (s\<lparr>recorded_sync_states := dict_setitem (recorded_sync_states s) e DAList.empty\<rparr>)"
  by (simp add: create_event.simps ensure_event_does_not_exist_absent)

lemma create_event_eq:
  "create_event s e =
   Inr (s\<lparr>recorded_sync_states :=
           dict_setitem (DAList.delete e (recorded_sync_states s)) e DAList.empty\<rparr>)"
proof (cases "dict_contains (recorded_sync_states s) e")
  case True
  then show ?thesis
    by (simp add: create_event.simps ensure_event_does_not_exist.simps delete_event_present)
next
  case False
  then show ?thesis by (simp add: create_event_absent delete_absent)
qed

lemma delete_event_eq:
  "delete_event s e = Inr (s\<lparr>recorded_sync_states := DAList.delete e (recorded_sync_states s)\<rparr>)"
proof (cases "dict_contains (recorded_sync_states s) e")
  case True
  then show ?thesis by (rule delete_event_present)
next
  case False
  then show ?thesis
    by (simp add: delete_event.simps ensure_event_exists.simps create_event_absent
        dict_delitem_def delete_setitem_same)
qed

lemma ensure_event_exists_eq:
  "ensure_event_exists s e =
   Inr (if dict_contains (recorded_sync_states s) e then s
        else s\<lparr>recorded_sync_states := dict_setitem (recorded_sync_states s) e DAList.empty\<rparr>)"
  by (simp add: ensure_event_exists.simps create_event_absent)

subsection \<open>Back-filling a stream\<close>

lemma lookup_ensure_stream_exists:
  "DAList.lookup (current_sync_states (ensure_stream_exists s st)) u =
     (if u = st then Some (clock_of s st) else DAList.lookup (current_sync_states s) u)"
  by (auto simp: ensure_stream_exists_def create_stream_def dict_contains_def clock_of_def)

lemma recorded_ensure_stream_exists [simp]:
  "recorded_sync_states (ensure_stream_exists s st) = recorded_sync_states s"
  by (simp add: ensure_stream_exists_def create_stream_def)

lemma clock_of_ensure_stream_exists [simp]:
  "clock_of (ensure_stream_exists s st) u = clock_of s u"
  by (simp add: clock_of_def [of "ensure_stream_exists s st"] lookup_ensure_stream_exists)
     (simp add: clock_of_def)

lemma dict_contains_ensure_stream_exists [simp]:
  "dict_contains (current_sync_states (ensure_stream_exists s st)) u \<longleftrightarrow>
     u = st \<or> dict_contains (current_sync_states s) u"
  by (simp add: dict_contains_def lookup_ensure_stream_exists)

lemma getitem_ensure_stream_exists:
  "dict_getitem (current_sync_states (ensure_stream_exists s st)) u =
     (if u = st then Inr (clock_of s st) else dict_getitem (current_sync_states s) u)"
  by (simp add: dict_getitem_def lookup_ensure_stream_exists)

lemma getitem_present_clock_of:
  "dict_contains (current_sync_states s) u \<Longrightarrow>
   dict_getitem (current_sync_states s) u = Inr (clock_of s u)"
  by (auto simp: dict_getitem_def dict_contains_def clock_of_def)

subsection \<open>The ordering query\<close>

lemma is_ordered_after_eq:
  "is_ordered_after s a n b =
     Inr (n \<le> current_value s a b, ensure_stream_exists (ensure_stream_exists s a) b)"
  by (simp add: is_ordered_after_def Let_def getitem_present_clock_of current_value_def)

text \<open>
  Claim C1.  In every state of the sync table and for all streams \<open>s_cur\<close>, \<open>s_prev\<close> and every
  sequence number \<open>n\<close>, the ordering query returns, and its answer is true exactly when
  \<open>n \<le> current[s_cur][s_prev]\<close>, the entry read with the default \<open>-1\<close> for a missing key
  \<open>s_prev\<close> (and for a stream \<open>s_cur\<close> that the query has to back-fill, whose clock is empty).
\<close>

theorem C1_is_ordered_after_iff:
  "\<exists>s'. is_ordered_after s s_cur n s_prev = Inr (n \<le> current_value s s_cur s_prev, s')"
  by (simp add: is_ordered_after_eq)

subsection \<open>Bumping, recording and waiting\<close>

lemma update_seq_num_eq:
  "update_seq_num s st n =
     Inr ((ensure_stream_exists s st)\<lparr>current_sync_states :=
            dict_setitem (current_sync_states (ensure_stream_exists s st)) st
              (dict_setitem (clock_of s st) st n)\<rparr>)"
  by (simp add: update_seq_num_def Let_def getitem_ensure_stream_exists)

lemma record_state_eq:
  "record_state s e st =
     (let s1 = (if dict_contains (recorded_sync_states s) e then s
                else s\<lparr>recorded_sync_states := dict_setitem (recorded_sync_states s) e DAList.empty\<rparr>);
          s2 = ensure_stream_exists s1 st
      in Inr (s2\<lparr>recorded_sync_states := dict_setitem (recorded_sync_states s2) e (clock_of s st)\<rparr>))"
  by (simp add: record_state_def ensure_event_exists_eq Let_def getitem_ensure_stream_exists clock_of_def)

text \<open>
  Claim C4.  \<^verbatim>\<open>record_state(e, s)\<close> returns, and in the table it leaves the snapshot held by \<open>e\<close> is
  the vector clock of \<open>s\<close>, the same dictionary: it maps every stream \<open>t\<close> to what the clock
  maps it to and has no key that the clock lacks.  That clock is the one \<open>s\<close> had before the
  call (empty when \<open>s\<close> is back-filled), so nothing of an earlier snapshot of \<open>e\<close> remains.
\<close>

theorem C4_record_state_snapshot:
  "\<exists>s' c. record_state s e st = Inr s' \<and>
          DAList.lookup (current_sync_states s') st = Some c \<and>
          DAList.lookup (recorded_sync_states s') e = Some c \<and>
          c = clock_of s st \<and>
          (\<forall>t. DAList.lookup (snapshot_of s' e) t = DAList.lookup (clock_of s' st) t)"
  by (simp add: record_state_eq Let_def lookup_ensure_stream_exists clock_of_def snapshot_of_def)

lemma dict_setitem_triv: "DAList.lookup d k = Some v \<Longrightarrow> dict_setitem d k v = d"
  by (simp add: dict_setitem_def alist_eq_iff update.rep_eq lookup.rep_eq update_triv)

lemma dict_get_setitem [simp]:
  "dict_get (dict_setitem d k v) k' dflt = (if k' = k then v else dict_get d k' dflt)"
  by (simp add: dict_get_def)

lemma state_wait_for_event_loop_eq:
  assumes "DAList.lookup (current_sync_states s) st = Some c" and "distinct (map fst items)"
  shows "\<exists>c'. state_wait_for_event_loop s st items =
                Inr (s\<lparr>current_sync_states := dict_setitem (current_sync_states s) st c'\<rparr>) \<and>
              (\<forall>t. DAList.lookup c' t =
                     (case map_of items t of
                        None \<Rightarrow> DAList.lookup c t
                      | Some n \<Rightarrow> Some (max (dict_get c t (- 1)) n)))"
  using assms
proof (induction items arbitrary: s c)
  case Nil
  then have "s\<lparr>current_sync_states := dict_setitem (current_sync_states s) st c\<rparr> = s"
    by (simp add: dict_setitem_triv)
  then show ?case by (intro exI [of _ c]) simp
next
  case (Cons item rest)
  obtain other n where item: "item = (other, n)" by (cases item)
  let ?c1 = "dict_setitem c other (max (dict_get c other (- 1)) n)"
  let ?s1 = "s\<lparr>current_sync_states := dict_setitem (current_sync_states s) st ?c1\<rparr>"
  have l1: "DAList.lookup (current_sync_states ?s1) st = Some ?c1" by simp
  have d1: "distinct (map fst rest)" and notin: "other \<notin> fst ` set rest"
    using Cons.prems(2) item by auto
  from Cons.IH [OF l1 d1] obtain c' where
    run: "state_wait_for_event_loop ?s1 st rest =
            Inr (?s1\<lparr>current_sync_states := dict_setitem (current_sync_states ?s1) st c'\<rparr>)"
    and val: "\<forall>t. DAList.lookup c' t =
                (case map_of rest t of
                   None \<Rightarrow> DAList.lookup ?c1 t
                 | Some m \<Rightarrow> Some (max (dict_get ?c1 t (- 1)) m))"
    by auto
  have step: "state_wait_for_event_loop s st (item # rest) = state_wait_for_event_loop ?s1 st rest"
    using Cons.prems(1) by (simp add: item dict_getitem_def)
  have none: "map_of rest other = None" using notin by (simp add: map_of_eq_None_iff)
  have "state_wait_for_event_loop s st (item # rest) =
          Inr (s\<lparr>current_sync_states := dict_setitem (current_sync_states s) st c'\<rparr>)"
    using step run by simp
  moreover have "\<forall>t. DAList.lookup c' t =
                     (case map_of (item # rest) t of
                        None \<Rightarrow> DAList.lookup c t
                      | Some m \<Rightarrow> Some (max (dict_get c t (- 1)) m))"
    using val none by (auto simp: item split: option.splits)
  ultimately show ?case by (intro exI [of _ c']) simp
qed

lemma clock_of_recorded_update [simp]:
  "clock_of (s\<lparr>recorded_sync_states := r\<rparr>) st = clock_of s st"
  by (simp add: clock_of_def)

lemma snapshot_of_current_update [simp]:
  "snapshot_of (s\<lparr>current_sync_states := c\<rparr>) e = snapshot_of s e"
  by (simp add: snapshot_of_def)

lemma snapshot_of_ensure_stream_exists [simp]:
  "snapshot_of (ensure_stream_exists s st) e = snapshot_of s e"
  by (simp add: snapshot_of_def)

lemma state_wait_for_event_eq:
  "\<exists>c'. state_wait_for_event s st e =
          Inr ((ensure_stream_exists
                  (if dict_contains (recorded_sync_states s) e then s
                   else s\<lparr>recorded_sync_states :=
                           dict_setitem (recorded_sync_states s) e DAList.empty\<rparr>) st)
               \<lparr>current_sync_states :=
                  dict_setitem
                    (current_sync_states
                       (ensure_stream_exists
                          (if dict_contains (recorded_sync_states s) e then s
                           else s\<lparr>recorded_sync_states :=
                                   dict_setitem (recorded_sync_states s) e DAList.empty\<rparr>) st))
                    st c'\<rparr>) \<and>
        (\<forall>t. DAList.lookup c' t =
               (case DAList.lookup (snapshot_of s e) t of
                  None \<Rightarrow> DAList.lookup (clock_of s st) t
                | Some n \<Rightarrow> Some (max (dict_get (clock_of s st) t (- 1)) n)))"
proof -
  let ?s1 = "if dict_contains (recorded_sync_states s) e then s
             else s\<lparr>recorded_sync_states := dict_setitem (recorded_sync_states s) e DAList.empty\<rparr>"
  let ?s2 = "ensure_stream_exists ?s1 st"
  have snap: "dict_getitem (recorded_sync_states ?s2) e = Inr (snapshot_of s e)"
    by (auto simp: dict_getitem_def snapshot_of_def dict_contains_def)
  have unfold: "state_wait_for_event s st e =
                  state_wait_for_event_loop ?s2 st (DAList.impl_of (snapshot_of s e))"
    unfolding state_wait_for_event_def ensure_event_exists_eq
    using snap by (simp add: Let_def dict_items_def)
  have clk: "DAList.lookup (current_sync_states ?s2) st = Some (clock_of s st)"
    by (simp add: lookup_ensure_stream_exists)
  have dist: "distinct (map fst (DAList.impl_of (snapshot_of s e)))" by simp
  from state_wait_for_event_loop_eq [OF clk dist] show ?thesis
    unfolding unfold by (simp add: lookup.rep_eq)
qed

text \<open>
  Claim C5.  \<^verbatim>\<open>state_wait_for_event(s, e)\<close> returns.  In the table it leaves, the clock of \<open>s\<close>
  maps every stream \<open>t\<close> that the snapshot of \<open>e\<close> maps to \<open>n\<close> to the larger of \<open>n\<close> and the
  earlier entry (read with the default \<open>-1\<close>), and keeps its entry, present or missing, for
  every other stream; the snapshot is unchanged.  Hence, read with the default \<open>-1\<close>,
  \<open>current[s][t] \<ge> recorded[e][t]\<close> for every stream \<open>t\<close>, provided no entry of the clock of
  \<open>s\<close> lay below that default: sequence numbers are counted upwards from \<open>1\<close>, and the
  proviso holds in every table that a run of the handler builds (\<open>run_clock_entries\<close> below).
\<close>

theorem C5_wait_propagates_maxima:
  "\<exists>s'. state_wait_for_event s st e = Inr s' \<and>
        ((\<forall>t v. DAList.lookup (clock_of s st) t = Some v \<longrightarrow> - 1 \<le> v) \<longrightarrow>
         (\<forall>t. recorded_value s' e t \<le> current_value s' st t)) \<and>
        (\<forall>t. DAList.lookup (clock_of s' st) t =
               (case DAList.lookup (snapshot_of s e) t of
                  None \<Rightarrow> DAList.lookup (clock_of s st) t
                | Some n \<Rightarrow> Some (max (current_value s st t) n))) \<and>
        snapshot_of s' e = snapshot_of s e"
proof -
  let ?s2 = "ensure_stream_exists
               (if dict_contains (recorded_sync_states s) e then s
                else s\<lparr>recorded_sync_states :=
                        dict_setitem (recorded_sync_states s) e DAList.empty\<rparr>) st"
  from state_wait_for_event_eq [of s st e] obtain c' where
    run: "state_wait_for_event s st e =
            Inr (?s2\<lparr>current_sync_states := dict_setitem (current_sync_states ?s2) st c'\<rparr>)"
    and val: "\<forall>t. DAList.lookup c' t =
               (case DAList.lookup (snapshot_of s e) t of
                  None \<Rightarrow> DAList.lookup (clock_of s st) t
                | Some n \<Rightarrow> Some (max (dict_get (clock_of s st) t (- 1)) n))"
    by auto
  let ?s' = "?s2\<lparr>current_sync_states := dict_setitem (current_sync_states ?s2) st c'\<rparr>"
  have clk: "clock_of ?s' st = c'" by (simp add: clock_of_def)
  have snap: "snapshot_of ?s' e = snapshot_of s e"
    by (auto simp: snapshot_of_def dict_contains_def)
  have le: "(\<forall>t v. DAList.lookup (clock_of s st) t = Some v \<longrightarrow> - 1 \<le> v) \<longrightarrow>
            (\<forall>t. recorded_value ?s' e t \<le> current_value ?s' st t)"
  proof (intro impI allI)
    fix t
    assume lower: "\<forall>t v. DAList.lookup (clock_of s st) t = Some v \<longrightarrow> - 1 \<le> v"
    show "recorded_value ?s' e t \<le> current_value ?s' st t"
    proof (cases "DAList.lookup (snapshot_of s e) t")
      case None
      then have "DAList.lookup c' t = DAList.lookup (clock_of s st) t" using val by simp
      with None lower show ?thesis
        unfolding recorded_value_def current_value_def clk snap
        by (cases "DAList.lookup (clock_of s st) t") (simp_all add: dict_get_def)
    next
      case (Some n)
      then have "DAList.lookup c' t = Some (max (dict_get (clock_of s st) t (- 1)) n)"
        using val by simp
      with Some show ?thesis
        unfolding recorded_value_def current_value_def clk snap
        by (simp add: dict_get_def)
    qed
  qed
  have eq: "\<forall>t. DAList.lookup (clock_of ?s' st) t =
               (case DAList.lookup (snapshot_of s e) t of
                  None \<Rightarrow> DAList.lookup (clock_of s st) t
                | Some n \<Rightarrow> Some (max (current_value s st t) n))"
    unfolding clk current_value_def using val by simp
  from run le eq snap show ?thesis by (intro exI [of _ ?s'] conjI)
qed

theorem C5_wait_propagates_maxima_witness:
  "\<exists>s'. state_wait_for_event
           \<lparr>current_sync_states =
              dict_setitem (dict_setitem DAList.empty 0 (dict_setitem DAList.empty 0 1))
                1 (dict_setitem DAList.empty 1 2),
            recorded_sync_states =
              dict_setitem DAList.empty 7 (dict_setitem DAList.empty 0 1)\<rparr> 1 7 = Inr s' \<and>
         (\<forall>t. recorded_value s' 7 t \<le> current_value s' 1 t)"
proof -
  let ?s = "\<lparr>current_sync_states =
              dict_setitem (dict_setitem DAList.empty 0 (dict_setitem DAList.empty 0 1))
                1 (dict_setitem DAList.empty 1 2),
            recorded_sync_states =
              dict_setitem DAList.empty 7 (dict_setitem DAList.empty 0 1)\<rparr>"
  have hyp: "\<forall>t v. DAList.lookup (clock_of ?s 1) t = Some v \<longrightarrow> - 1 \<le> v"
    by (simp add: clock_of_def split: if_splits)
  from C5_wait_propagates_maxima [of ?s 1 7] obtain s' where
    run: "state_wait_for_event ?s 1 7 = Inr s'" and
    imp: "(\<forall>t v. DAList.lookup (clock_of ?s 1) t = Some v \<longrightarrow> - 1 \<le> v) \<longrightarrow>
          (\<forall>t. recorded_value s' 7 t \<le> current_value s' 1 t)"
    by (elim exE conjE)
  from imp hyp have "\<forall>t. recorded_value s' 7 t \<le> current_value s' 1 t" by (rule mp)
  with run show ?thesis by (intro exI [of _ s'] conjI)
qed

subsection \<open>Keys of clocks are streams of the table\<close>

lemma clock_of_dict_get: "clock_of s u = dict_get (current_sync_states s) u DAList.empty"
  by (simp add: clock_of_def dict_get_def)

lemma snapshot_of_dict_get: "snapshot_of s e = dict_get (recorded_sync_states s) e DAList.empty"
  by (simp add: snapshot_of_def dict_get_def)

lemma dict_get_delete [simp]:
  "dict_get (DAList.delete k d) k' dflt = (if k' = k then dflt else dict_get d k' dflt)"
  by (simp add: dict_get_def)

lemma dict_get_empty [simp]: "dict_get DAList.empty k dflt = dflt"
  by (simp add: dict_get_def)

lemma dict_get_ensure_stream_exists [simp]:
  "dict_get (current_sync_states (ensure_stream_exists s st)) u DAList.empty =
     dict_get (current_sync_states s) u DAList.empty"
  using clock_of_ensure_stream_exists [of s st u] by (simp add: clock_of_dict_get)

lemmas keys_known_unfold = clock_keys_known_def clock_of_dict_get snapshot_of_dict_get

lemma clock_keys_known_init: "clock_keys_known StreamSynchronizations_init"
  by (simp add: keys_known_unfold StreamSynchronizations_init_def)

lemma clock_keys_known_ensure_stream_exists:
  "clock_keys_known s \<Longrightarrow> clock_keys_known (ensure_stream_exists s st)"
  by (simp add: keys_known_unfold)

lemma create_stream_eq_ensure: "create_stream s st = ensure_stream_exists s st"
  by (simp add: ensure_stream_exists_def create_stream_def)

lemma clock_keys_known_delete_event:
  "clock_keys_known s \<Longrightarrow> delete_event s e = Inr s' \<Longrightarrow> clock_keys_known s'"
  by (auto simp: delete_event_eq keys_known_unfold split: if_splits)

lemma clock_keys_known_create_event:
  "clock_keys_known s \<Longrightarrow> create_event s e = Inr s' \<Longrightarrow> clock_keys_known s'"
  by (auto simp: create_event_eq keys_known_unfold split: if_splits)

lemma clock_keys_known_update_seq_num:
  "clock_keys_known s \<Longrightarrow> update_seq_num s st n = Inr s' \<Longrightarrow> clock_keys_known s'"
  by (auto simp: update_seq_num_eq keys_known_unfold split: if_splits)

lemma clock_keys_known_record_state:
  "clock_keys_known s \<Longrightarrow> record_state s e st = Inr s' \<Longrightarrow> clock_keys_known s'"
  by (auto simp: record_state_eq Let_def keys_known_unfold split: if_splits)

lemma clock_keys_known_is_ordered_after:
  "clock_keys_known s \<Longrightarrow> is_ordered_after s a n b = Inr (r, s') \<Longrightarrow> clock_keys_known s'"
  by (auto simp: is_ordered_after_eq keys_known_unfold)

lemma clock_keys_known_state_wait_for_event:
  assumes inv: "clock_keys_known s" and run: "state_wait_for_event s st e = Inr s'"
  shows "clock_keys_known s'"
proof -
  let ?s1 = "if dict_contains (recorded_sync_states s) e then s
             else s\<lparr>recorded_sync_states := dict_setitem (recorded_sync_states s) e DAList.empty\<rparr>"
  let ?s2 = "ensure_stream_exists ?s1 st"
  from state_wait_for_event_eq [of s st e] run obtain c' where
    s': "s' = ?s2\<lparr>current_sync_states := dict_setitem (current_sync_states ?s2) st c'\<rparr>"
    and val: "\<forall>t. DAList.lookup c' t =
               (case DAList.lookup (snapshot_of s e) t of
                  None \<Rightarrow> DAList.lookup (clock_of s st) t
                | Some n \<Rightarrow> Some (max (dict_get (clock_of s st) t (- 1)) n))"
    by auto
  have keys: "dict_contains c' t \<Longrightarrow>
              dict_contains (snapshot_of s e) t \<or> dict_contains (clock_of s st) t" for t
    using val by (auto simp: dict_contains_def split: option.splits)
  have known: "dict_contains c' t \<Longrightarrow> dict_contains (current_sync_states s) t" for t
    using keys [of t] inv by (auto simp: clock_keys_known_def)
  have inv1: "clock_keys_known ?s1"
    using inv by (auto simp: keys_known_unfold split: if_splits)
  have cur1: "current_sync_states ?s1 = current_sync_states s" by simp
  have inv2: "clock_keys_known ?s2"
    using inv1 by (rule clock_keys_known_ensure_stream_exists)
  have sub: "dict_contains (current_sync_states s) t \<Longrightarrow> dict_contains (current_sync_states ?s2) t" for t
    using cur1 by simp
  show ?thesis
    unfolding s' using inv2 known sub
    by (auto simp: keys_known_unfold split: if_splits)
qed

lemma sync_table_reachable_keys_known: "sync_table_reachable s \<Longrightarrow> clock_keys_known s"
proof (induction rule: sync_table_reachable.induct)
  case init
  show ?case by (rule clock_keys_known_init)
next
  case (create_stream s st)
  then show ?case by (simp add: create_stream_eq_ensure clock_keys_known_ensure_stream_exists)
next
  case (create_event s e s')
  then show ?case by (blast intro: clock_keys_known_create_event)
next
  case (delete_event s e s')
  then show ?case by (blast intro: clock_keys_known_delete_event)
next
  case (update_seq_num s st n s')
  then show ?case by (blast intro: clock_keys_known_update_seq_num)
next
  case (record_state s e st s')
  then show ?case by (blast intro: clock_keys_known_record_state)
next
  case (state_wait_for_event s st e s')
  then show ?case by (blast intro: clock_keys_known_state_wait_for_event)
next
  case (is_ordered_after s a n b r s')
  then show ?case by (blast intro: clock_keys_known_is_ordered_after)
qed

lemma current_value_unknown_stream:
  assumes "sync_table_reachable s" and "\<not> dict_contains (current_sync_states s) t"
  shows "current_value s u t = - 1"
proof -
  from assms(1) have "clock_keys_known s" by (rule sync_table_reachable_keys_known)
  with assms(2) have "\<not> dict_contains (clock_of s u) t" by (auto simp: clock_keys_known_def)
  then show ?thesis by (simp add: current_value_def dict_get_def dict_contains_def)
qed

text \<open>
  Claim C10.  The ordering query returns and may change the table: afterwards \<open>s_cur\<close> and
  \<open>s_prev\<close> both have a clock; one that had none has the empty clock, and the table then
  differs from the one before.  The clock of every stream that had one is unchanged, no
  other stream gets a clock, and the recorded snapshots are unchanged.  In a table built by
  the methods of the class, the answer for an \<open>s_prev\<close> without a clock is \<open>n \<le> -1\<close>.
\<close>

theorem C10_is_ordered_after_backfills:
  "\<exists>b s'. is_ordered_after s s_cur n s_prev = Inr (b, s') \<and>
     dict_contains (current_sync_states s') s_cur \<and>
     dict_contains (current_sync_states s') s_prev \<and>
     (\<not> dict_contains (current_sync_states s) s_cur \<longrightarrow>
        DAList.lookup (current_sync_states s') s_cur = Some DAList.empty \<and> s' \<noteq> s) \<and>
     (\<not> dict_contains (current_sync_states s) s_prev \<longrightarrow>
        DAList.lookup (current_sync_states s') s_prev = Some DAList.empty \<and> s' \<noteq> s) \<and>
     (\<forall>u. dict_contains (current_sync_states s) u \<longrightarrow>
        DAList.lookup (current_sync_states s') u = DAList.lookup (current_sync_states s) u) \<and>
     (\<forall>u. u \<noteq> s_cur \<and> u \<noteq> s_prev \<longrightarrow>
        DAList.lookup (current_sync_states s') u = DAList.lookup (current_sync_states s) u) \<and>
     recorded_sync_states s' = recorded_sync_states s \<and>
     (sync_table_reachable s \<and> \<not> dict_contains (current_sync_states s) s_prev \<longrightarrow>
        b = (n \<le> - 1))"
proof -
  let ?s' = "ensure_stream_exists (ensure_stream_exists s s_cur) s_prev"
  let ?b = "n \<le> current_value s s_cur s_prev"
  have run: "is_ordered_after s s_cur n s_prev = Inr (?b, ?s')" by (rule is_ordered_after_eq)
  have look: "DAList.lookup (current_sync_states ?s') u =
                (if u = s_prev then Some (clock_of s s_prev)
                 else if u = s_cur then Some (clock_of s s_cur)
                 else DAList.lookup (current_sync_states s) u)" for u
    by (simp add: lookup_ensure_stream_exists)
  have 1: "dict_contains (current_sync_states ?s') s_cur" by simp
  have 2: "dict_contains (current_sync_states ?s') s_prev" by simp
  have absent: "\<not> dict_contains (current_sync_states s) u \<Longrightarrow> clock_of s u = DAList.empty" for u
    by (simp add: clock_of_def dict_contains_def)
  have diff: "\<not> dict_contains (current_sync_states s) u \<Longrightarrow>
              dict_contains (current_sync_states ?s') u \<Longrightarrow> ?s' \<noteq> s" for u
  proof
    assume a: "\<not> dict_contains (current_sync_states s) u"
      and b: "dict_contains (current_sync_states ?s') u" and c: "?s' = s"
    from b have "dict_contains (current_sync_states s) u" unfolding c .
    with a show False by contradiction
  qed
  have 3: "\<not> dict_contains (current_sync_states s) s_cur \<longrightarrow>
           DAList.lookup (current_sync_states ?s') s_cur = Some DAList.empty \<and> ?s' \<noteq> s"
    using diff [of s_cur] 1 by (auto simp: look absent)
  have 4: "\<not> dict_contains (current_sync_states s) s_prev \<longrightarrow>
           DAList.lookup (current_sync_states ?s') s_prev = Some DAList.empty \<and> ?s' \<noteq> s"
    using diff [of s_prev] 2 by (auto simp: look absent)
  have 5: "\<forall>u. dict_contains (current_sync_states s) u \<longrightarrow>
             DAList.lookup (current_sync_states ?s') u = DAList.lookup (current_sync_states s) u"
    by (auto simp: look clock_of_def dict_contains_def)
  have 6: "\<forall>u. u \<noteq> s_cur \<and> u \<noteq> s_prev \<longrightarrow>
             DAList.lookup (current_sync_states ?s') u = DAList.lookup (current_sync_states s) u"
    by (simp add: look)
  have 7: "recorded_sync_states ?s' = recorded_sync_states s" by simp
  have 8: "sync_table_reachable s \<and> \<not> dict_contains (current_sync_states s) s_prev \<longrightarrow>
           ?b = (n \<le> - 1)"
    by (simp add: current_value_unknown_stream)
  from run 1 2 3 4 5 6 7 8 show ?thesis
    by (intro exI [of _ ?b] exI [of _ ?s'] conjI)
qed

theorem C10_is_ordered_after_backfills_witness:
  "sync_table_reachable (create_stream StreamSynchronizations_init 2) \<and>
   \<not> dict_contains (current_sync_states (create_stream StreamSynchronizations_init 2)) 0 \<and>
   \<not> dict_contains (current_sync_states (create_stream StreamSynchronizations_init 2)) 1 \<and>
   dict_contains (current_sync_states (create_stream StreamSynchronizations_init 2)) 2 \<and>
   (\<exists>b s'. is_ordered_after (create_stream StreamSynchronizations_init 2) 0 5 1 = Inr (b, s') \<and>
      DAList.lookup (current_sync_states s') 0 = Some DAList.empty \<and>
      DAList.lookup (current_sync_states s') 1 = Some DAList.empty \<and>
      s' \<noteq> create_stream StreamSynchronizations_init 2 \<and>
      DAList.lookup (current_sync_states s') 2 =
        DAList.lookup (current_sync_states (create_stream StreamSynchronizations_init 2)) 2 \<and>
      b = ((5::int) \<le> - 1))"
proof -
  let ?s = "create_stream StreamSynchronizations_init 2"
  have r: "sync_table_reachable ?s"
    by (intro sync_table_reachable.create_stream sync_table_reachable.init)
  have a0: "\<not> dict_contains (current_sync_states ?s) 0"
    by (simp add: create_stream_def StreamSynchronizations_init_def)
  have a1: "\<not> dict_contains (current_sync_states ?s) 1"
    by (simp add: create_stream_def StreamSynchronizations_init_def)
  have p2: "dict_contains (current_sync_states ?s) 2"
    by (simp add: create_stream_def StreamSynchronizations_init_def)
  from C10_is_ordered_after_backfills [of ?s 0 5 1] obtain b s' where
    run: "is_ordered_after ?s 0 5 1 = Inr (b, s')"
    and c3: "\<not> dict_contains (current_sync_states ?s) 0 \<longrightarrow>
               DAList.lookup (current_sync_states s') 0 = Some DAList.empty \<and> s' \<noteq> ?s"
    and c4: "\<not> dict_contains (current_sync_states ?s) 1 \<longrightarrow>
               DAList.lookup (current_sync_states s') 1 = Some DAList.empty \<and> s' \<noteq> ?s"
    and c5: "\<forall>u. dict_contains (current_sync_states ?s) u \<longrightarrow>
               DAList.lookup (current_sync_states s') u = DAList.lookup (current_sync_states ?s) u"
    and c8: "sync_table_reachable ?s \<and> \<not> dict_contains (current_sync_states ?s) 1 \<longrightarrow>
               b = ((5::int) \<le> - 1)"
    by (elim exE conjE)
  from c3 a0 have l0: "DAList.lookup (current_sync_states s') 0 = Some DAList.empty"
    and ne: "s' \<noteq> ?s" by simp_all
  from c4 a1 have l1: "DAList.lookup (current_sync_states s') 1 = Some DAList.empty" by simp
  from c5 p2 have l2: "DAList.lookup (current_sync_states s') 2 =
                         DAList.lookup (current_sync_states ?s) 2" by simp
  from c8 r a1 have b: "b = ((5::int) \<le> - 1)" by simp
  from run l0 l1 ne l2 b
  have "\<exists>b s'. is_ordered_after ?s 0 5 1 = Inr (b, s') \<and>
          DAList.lookup (current_sync_states s') 0 = Some DAList.empty \<and>
          DAList.lookup (current_sync_states s') 1 = Some DAList.empty \<and>
          s' \<noteq> ?s \<and>
          DAList.lookup (current_sync_states s') 2 = DAList.lookup (current_sync_states ?s) 2 \<and>
          b = ((5::int) \<le> - 1)"
    by (intro exI [of _ b] exI [of _ s'] conjI)
  with r a0 a1 p2 show ?thesis by (intro conjI)
qed

section \<open>The launch handler\<close>

subsection \<open>Conflict checks and the two loop bodies in closed form\<close>

lemma current_value_ensure_stream_exists [simp]:
  "current_value (ensure_stream_exists s st) u t = current_value s u t"
  by (simp add: current_value_def)

lemma unordered_ensure_stream_exists [simp]:
  "unordered (ensure_stream_exists s st) cur prev = unordered s cur prev"
  by (simp add: unordered_def)

lemma check_conflict_None [simp]: "check_conflict hl p cur None = Inr hl"
  by (simp add: check_conflict_def)

lemma check_conflict_Some:
  assumes "dict_getitem (accesses (tensors_accessed h)) p = Inr info"
  shows "check_conflict (h, errs) p cur (Some prev) =
           Inr (h\<lparr>syncs := ensure_stream_exists (ensure_stream_exists (syncs h) (stream cur)) (stream prev)\<rparr>,
                errs @ conflict_reports (syncs h) p (allocation_stack_trace info) cur [prev])"
  using assms
  by (simp add: check_conflict_def is_ordered_after_eq Let_def get_allocation_stack_trace_def
      conflict_reports_def unordered_def)

lemma conflict_reports_Nil [simp]: "conflict_reports s p alloc cur [] = []"
  by (simp add: conflict_reports_def)

lemma conflict_reports_Cons:
  "conflict_reports s p alloc cur (prev # rest) =
     conflict_reports s p alloc cur [prev] @ conflict_reports s p alloc cur rest"
  by (simp add: conflict_reports_def)

lemma conflict_reports_ensure [simp]:
  "conflict_reports (ensure_stream_exists s st) p alloc cur prevs = conflict_reports s p alloc cur prevs"
  by (simp add: conflict_reports_def cong: filter_cong)

lemma check_conflict_reads_eq:
  assumes "dict_getitem (accesses (tensors_accessed h)) p = Inr info" and "stream cur = strm"
  shows "check_conflict_reads (h, errs) p cur prevs =
           Inr (h\<lparr>syncs := backfill_streams (syncs h) strm prevs\<rparr>,
                errs @ conflict_reports (syncs h) p (allocation_stack_trace info) cur prevs)"
  using assms
proof (induction prevs arbitrary: h errs)
  case Nil
  then show ?case by simp
next
  case (Cons prev rest)
  let ?h1 = "h\<lparr>syncs := ensure_stream_exists (ensure_stream_exists (syncs h) strm) (stream prev)\<rparr>"
  have info1: "dict_getitem (accesses (tensors_accessed ?h1)) p = Inr info"
    using Cons.prems(1) by simp
  have "check_conflict_reads (h, errs) p cur (prev # rest) =
          check_conflict_reads
            (?h1, errs @ conflict_reports (syncs h) p (allocation_stack_trace info) cur [prev])
            p cur rest"
    using Cons.prems by (simp add: check_conflict_Some)
  also have "\<dots> = Inr (?h1\<lparr>syncs := backfill_streams (syncs ?h1) strm rest\<rparr>,
        (errs @ conflict_reports (syncs h) p (allocation_stack_trace info) cur [prev]) @
          conflict_reports (syncs ?h1) p (allocation_stack_trace info) cur rest)"
    using Cons.IH [OF info1 Cons.prems(2)] .
  finally show ?case
    by (simp add: conflict_reports_Cons [of _ _ _ _ prev rest])
qed

lemma getitem_ensure_tensor_exists:
  "dict_getitem (accesses (ensure_tensor_exists ta p)) p = Inr (tensor_info ta p)"
  by (auto simp: ensure_tensor_exists_def create_tensor_def tensor_info_def dict_getitem_def
      dict_get_def dict_contains_def)

lemma backfill_streams_single [simp]:
  "backfill_streams s strm [prev] = ensure_stream_exists (ensure_stream_exists s strm) (stream prev)"
  by simp

lemma read_only_step_eq:
  assumes "dict_getitem tensor_names p = Inr nms"
  shows "read_only_step strm opr tensor_names stack (h, errs) p =
     (let ta1 = ensure_tensor_exists (tensors_accessed h) p;
          info = tensor_info (tensors_accessed h) p;
          cur = \<lparr>type = READ, seq_num = EventHandler.seq_num h, stream = strm, operator = opr,
                 names = nms, stack_trace = stack\<rparr>
      in Inr (h\<lparr>tensors_accessed :=
                  ta1\<lparr>accesses := dict_setitem (accesses ta1) p (info\<lparr>reads := reads info @ [cur]\<rparr>)\<rparr>,
                syncs := backfill_streams (syncs h) strm (checked_by_read info)\<rparr>,
              errs @ conflict_reports (syncs h) p (allocation_stack_trace info) cur
                       (checked_by_read info)))"
proof -
  let ?h1 = "h\<lparr>tensors_accessed := ensure_tensor_exists (tensors_accessed h) p\<rparr>"
  have info1: "dict_getitem (accesses (tensors_accessed ?h1)) p = Inr (tensor_info (tensors_accessed h) p)"
    by (simp add: getitem_ensure_tensor_exists)
  note cc = check_conflict_Some [OF info1]
  show ?thesis
  proof (cases "write' (tensor_info (tensors_accessed h) p)")
    case None
    then show ?thesis
      using assms
      by (simp add: read_only_step_def Let_def get_write_def getitem_ensure_tensor_exists
          add_read_def checked_by_read_def)
  next
    case (Some w)
    then show ?thesis
      using assms
      by (simp add: read_only_step_def Let_def get_write_def getitem_ensure_tensor_exists
          add_read_def checked_by_read_def cc)
  qed
qed

lemma read_write_step_eq:
  assumes "dict_getitem tensor_names p = Inr nms"
  shows "read_write_step strm opr tensor_names stack (h, errs) p =
     (let ta1 = ensure_tensor_exists (tensors_accessed h) p;
          info = tensor_info (tensors_accessed h) p;
          cur = \<lparr>type = WRITE, seq_num = EventHandler.seq_num h, stream = strm, operator = opr,
                 names = nms, stack_trace = stack\<rparr>
      in Inr (h\<lparr>tensors_accessed :=
                  ta1\<lparr>accesses := dict_setitem (accesses ta1) p (info\<lparr>write' := Some cur, reads := []\<rparr>)\<rparr>,
                syncs := backfill_streams (syncs h) strm (checked_by_write info)\<rparr>,
              errs @ conflict_reports (syncs h) p (allocation_stack_trace info) cur
                       (checked_by_write info)))"
proof -
  let ?h1 = "h\<lparr>tensors_accessed := ensure_tensor_exists (tensors_accessed h) p\<rparr>"
  let ?info = "tensor_info (tensors_accessed h) p"
  have info1: "dict_getitem (accesses (tensors_accessed ?h1)) p = Inr ?info"
    by (simp add: getitem_ensure_tensor_exists)
  note cc = check_conflict_Some [OF info1]
  note cr = check_conflict_reads_eq [OF info1]
  note sw = set_write_eq [of "ensure_tensor_exists (tensors_accessed h) p" p ?info,
      OF getitem_ensure_tensor_exists]
  show ?thesis
  proof (cases "reads ?info = []")
    case no_reads: True
    show ?thesis
    proof (cases "write' ?info")
      case None
      with no_reads show ?thesis
        using assms
        by (simp add: read_write_step_def Let_def get_write_def getitem_ensure_tensor_exists
            were_there_reads_since_last_write_def checked_by_read_def checked_by_write_def sw)
    next
      case (Some w)
      with no_reads show ?thesis
        using assms
        by (simp add: read_write_step_def Let_def get_write_def getitem_ensure_tensor_exists
            were_there_reads_since_last_write_def checked_by_read_def checked_by_write_def sw cc)
    qed
  next
    case False
    then show ?thesis
      using assms
      by (simp add: read_write_step_def Let_def get_reads_def getitem_ensure_tensor_exists
          were_there_reads_since_last_write_def checked_by_write_def sw cr)
  qed
qed

subsection \<open>The first scenario of the specification\<close>

lemmas handler_defs =
  handle_kernel_launch_def handle_event_creation_def handle_event_deletion_def
  handle_event_record_def handle_event_wait_def handle_memory_allocation_def
  handle_memory_deallocation_def handle_stream_creation_def

lemmas log_defs =
  create_tensor_def delete_tensor_def ensure_tensor_exists_def ensure_tensor_does_not_exist_def
  were_there_reads_since_last_write_def get_allocation_stack_trace_def get_write_def
  get_reads_def add_read_def

text \<open>
  Claim C8.  On a fresh handler, two stream creations, the allocation of buffer \<open>0xB\<close>, a
  launch on stream \<open>0\<close> that writes the buffer and a launch on stream \<open>1\<close> that reads it (the
  buffer having argument names in both launches) all return; the first launch returns the
  empty list and the second exactly one report, on buffer \<open>0xB\<close>, whose current access is the
  \<^verbatim>\<open>READ\<close> with sequence number \<open>2\<close> on stream \<open>1\<close> and whose previous access is the \<^verbatim>\<open>WRITE\<close>
  with sequence number \<open>1\<close> on stream \<open>0\<close>.
\<close>

theorem C8_unsynchronized_read_after_write:
  assumes "dict_getitem tn1 11 = Inr nm1" and "dict_getitem tn2 11 = Inr nm2"
  shows "\<exists>h. run EventHandler_init
           [StreamCreation 0, StreamCreation 1, MemoryAllocation 11 stk0,
            KernelLaunch 0 [] [11] ''op'' tn1 stk1,
            KernelLaunch 1 [11] [] ''op'' tn2 stk2] =
         Inr ([None, None, None, Some [],
               Some [UnsynchronizedAccessError 11 (Some stk0)
                       \<lparr>type = READ, seq_num = 2, stream = 1, operator = ''op'', names = nm2,
                        stack_trace = stk2\<rparr>
                       \<lparr>type = WRITE, seq_num = 1, stream = 0, operator = ''op'', names = nm1,
                        stack_trace = stk1\<rparr>]], h)"
  using assms
  by (simp add: EventHandler_init_def TensorsAccessed_init_def StreamSynchronizations_init_def
      handler_defs log_defs set_write_eq read_only_step_def read_write_step_def check_conflict_def
      is_ordered_after_eq update_seq_num_eq create_stream_def ensure_stream_exists_def
      Let_def dict_delitem_def current_value_def clock_of_def)

theorem C8_unsynchronized_read_after_write_witness:
  "\<exists>h. run EventHandler_init
         [StreamCreation 0, StreamCreation 1, MemoryAllocation 11 [''alloc''],
          KernelLaunch 0 [] [11] ''op'' (dict_setitem DAList.empty 11 [''out'']) [''first''],
          KernelLaunch 1 [11] [] ''op'' (dict_setitem DAList.empty 11 [''self'']) [''second'']] =
       Inr ([None, None, None, Some [],
             Some [UnsynchronizedAccessError 11 (Some [''alloc''])
                     \<lparr>type = READ, seq_num = 2, stream = 1, operator = ''op'',
                      names = [''self''], stack_trace = [''second'']\<rparr>
                     \<lparr>type = WRITE, seq_num = 1, stream = 0, operator = ''op'',
                      names = [''out''], stack_trace = [''first'']\<rparr>]], h)"
proof -
  have 1: "dict_getitem (dict_setitem DAList.empty (11::int) [''out'']) 11 = Inr [''out'']"
    by simp
  have 2: "dict_getitem (dict_setitem DAList.empty (11::int) [''self'']) 11 = Inr [''self'']"
    by simp
  show ?thesis
    by (rule C8_unsynchronized_read_after_write [OF 1 2])
qed

section \<open>Invariants of the sync table\<close>

subsection \<open>The clocks and snapshots after each method\<close>

lemma same_clocks_refl [simp]: "same_clocks s s"
  by (simp add: same_clocks_def)

lemma same_clocks_trans: "same_clocks s s1 \<Longrightarrow> same_clocks s1 s2 \<Longrightarrow> same_clocks s s2"
  by (simp add: same_clocks_def)

lemma same_clocks_ensure_stream_exists [simp]: "same_clocks s (ensure_stream_exists s st)"
  by (simp add: same_clocks_def)

lemma same_clocks_create_stream [simp]: "same_clocks s (create_stream s st)"
  by (simp add: create_stream_eq_ensure)

lemma same_clocks_backfill_streams [simp]: "same_clocks s (backfill_streams s strm prevs)"
proof (induction prevs arbitrary: s)
  case Nil
  show ?case by simp
next
  case (Cons prev rest)
  have "same_clocks s (ensure_stream_exists (ensure_stream_exists s strm) (stream prev))"
    by (simp add: same_clocks_def)
  from same_clocks_trans [OF this Cons.IH] show ?case by simp
qed

lemma same_clocks_self_clock: "same_clocks s s' \<Longrightarrow> self_clock s' t = self_clock s t"
  by (simp add: same_clocks_def self_clock_def)

lemma same_clocks_current_value: "same_clocks s s' \<Longrightarrow> current_value s' u t = current_value s u t"
  by (simp add: same_clocks_def current_value_def)

lemma clocks_bounded_same_clocks:
  "same_clocks s s' \<Longrightarrow> clocks_bounded s n \<Longrightarrow> clocks_bounded s' n"
  by (simp add: clocks_bounded_def same_clocks_def self_clock_def)

lemma clocks_bounded_mono: "clocks_bounded s n \<Longrightarrow> n \<le> m \<Longrightarrow> clocks_bounded s m"
  unfolding clocks_bounded_def by (meson order_trans)

lemma clocks_bounded_init: "clocks_bounded StreamSynchronizations_init n"
  by (simp add: clocks_bounded_def keys_known_unfold self_clock_def StreamSynchronizations_init_def)

lemma create_event_view:
  assumes "create_event s e = Inr s'"
  shows "clock_of s' u = clock_of s u"
    and "snapshot_of s' e' = (if e' = e then DAList.empty else snapshot_of s e')"
  using assms by (auto simp: create_event_eq clock_of_dict_get snapshot_of_dict_get)

lemma delete_event_view:
  assumes "delete_event s e = Inr s'"
  shows "clock_of s' u = clock_of s u"
    and "snapshot_of s' e' = (if e' = e then DAList.empty else snapshot_of s e')"
  using assms by (auto simp: delete_event_eq clock_of_dict_get snapshot_of_dict_get)

lemma record_state_view:
  assumes "record_state s e st = Inr s'"
  shows "clock_of s' u = clock_of s u"
    and "snapshot_of s' e' = (if e' = e then clock_of s st else snapshot_of s e')"
  using assms
  by (auto simp: record_state_eq Let_def clock_of_dict_get snapshot_of_dict_get split: if_splits)

lemma update_seq_num_view:
  assumes "update_seq_num s st n = Inr s'"
  shows "clock_of s' u = (if u = st then dict_setitem (clock_of s st) st n else clock_of s u)"
    and "snapshot_of s' e = snapshot_of s e"
  using assms
  by (auto simp: update_seq_num_eq clock_of_dict_get snapshot_of_dict_get)

lemma state_wait_for_event_view:
  assumes "state_wait_for_event s st e = Inr s'"
  shows "\<exists>c'. (\<forall>u. clock_of s' u = (if u = st then c' else clock_of s u)) \<and>
              (\<forall>e'. snapshot_of s' e' = snapshot_of s e') \<and>
              (\<forall>t. DAList.lookup c' t =
                 (case DAList.lookup (snapshot_of s e) t of
                    None \<Rightarrow> DAList.lookup (clock_of s st) t
                  | Some n \<Rightarrow> Some (max (dict_get (clock_of s st) t (- 1)) n)))"
proof -
  let ?s1 = "if dict_contains (recorded_sync_states s) e then s
             else s\<lparr>recorded_sync_states := dict_setitem (recorded_sync_states s) e DAList.empty\<rparr>"
  let ?s2 = "ensure_stream_exists ?s1 st"
  from state_wait_for_event_eq [of s st e] assms obtain c' where
    s': "s' = ?s2\<lparr>current_sync_states := dict_setitem (current_sync_states ?s2) st c'\<rparr>"
    and val: "\<forall>t. DAList.lookup c' t =
               (case DAList.lookup (snapshot_of s e) t of
                  None \<Rightarrow> DAList.lookup (clock_of s st) t
                | Some n \<Rightarrow> Some (max (dict_get (clock_of s st) t (- 1)) n))"
    by auto
  have clk1: "clock_of ?s1 u = clock_of s u" for u by simp
  have clk: "\<forall>u. clock_of s' u = (if u = st then c' else clock_of s u)"
    unfolding s' using clk1 by (simp add: clock_of_dict_get)
  have snap: "\<forall>e'. snapshot_of s' e' = snapshot_of s e'"
    unfolding s' by (auto simp: snapshot_of_dict_get dict_get_def dict_contains_def)
  from clk snap val show ?thesis by (intro exI [of _ c'] conjI)
qed

subsection \<open>The bound on clocks is kept\<close>

lemma clocks_bounded_create_event:
  assumes "clocks_bounded s n" and "create_event s e = Inr s'"
  shows "clocks_bounded s' n" and "self_clock s' t = self_clock s t"
  using assms(1) create_event_view [OF assms(2)]
  by (auto simp: clocks_bounded_def self_clock_def split: if_splits)

lemma clocks_bounded_delete_event:
  assumes "clocks_bounded s n" and "delete_event s e = Inr s'"
  shows "clocks_bounded s' n" and "self_clock s' t = self_clock s t"
  using assms(1) delete_event_view [OF assms(2)]
  by (auto simp: clocks_bounded_def self_clock_def split: if_splits)

lemma clocks_bounded_record_state:
  assumes "clocks_bounded s n" and "record_state s e st = Inr s'"
  shows "clocks_bounded s' n" and "self_clock s' t = self_clock s t"
  using assms(1) record_state_view [OF assms(2)]
  by (auto simp: clocks_bounded_def self_clock_def split: if_splits)

lemma self_clock_update_seq_num:
  assumes "update_seq_num s st n = Inr s'"
  shows "self_clock s' t = (if t = st then Some n else self_clock s t)"
  using update_seq_num_view [OF assms] by (simp add: self_clock_def)

lemma clocks_bounded_update_seq_num:
  assumes inv: "clocks_bounded s n" and nonneg: "0 \<le> n"
    and run: "update_seq_num s st (n + 1) = Inr s'"
  shows "clocks_bounded s' (n + 1)"
proof -
  note clk = update_seq_num_view(1) [OF run] and snap = update_seq_num_view(2) [OF run]
  note self = self_clock_update_seq_num [OF run]
  have old: "DAList.lookup (clock_of s u) t = Some v \<Longrightarrow>
             \<exists>w. self_clock s t = Some w \<and> 0 \<le> v \<and> v \<le> w \<and> w \<le> n"
    for u t v using inv unfolding clocks_bounded_def by blast
  have olds: "DAList.lookup (snapshot_of s e) t = Some v \<Longrightarrow>
              \<exists>w. self_clock s t = Some w \<and> 0 \<le> v \<and> v \<le> w \<and> w \<le> n"
    for e t v using inv unfolding clocks_bounded_def by blast
  have oldself: "self_clock s t = Some w \<Longrightarrow> 0 \<le> w \<and> w \<le> n" for t w
    using inv unfolding clocks_bounded_def by blast
  have 1: "\<exists>w. self_clock s' t = Some w \<and> 0 \<le> v \<and> v \<le> w"
    if "DAList.lookup (clock_of s' u) t = Some v" for u t v
  proof (cases "t = st")
    case True
    show ?thesis
    proof (cases "u = st")
      case True
      with that \<open>t = st\<close> nonneg show ?thesis by (auto simp: clk self)
    next
      case False
      with that have "DAList.lookup (clock_of s u) t = Some v" by (simp add: clk)
      from old [OF this] have "0 \<le> v \<and> v \<le> n" by auto
      with \<open>t = st\<close> show ?thesis by (simp add: self)
    qed
  next
    case False
    with that have "DAList.lookup (clock_of s u) t = Some v" by (simp add: clk split: if_splits)
    from old [OF this] False show ?thesis by (auto simp: self)
  qed
  have 2: "\<exists>w. self_clock s' t = Some w \<and> 0 \<le> v \<and> v \<le> w"
    if "DAList.lookup (snapshot_of s' e) t = Some v" for e t v
  proof -
    from that have "DAList.lookup (snapshot_of s e) t = Some v" by (simp add: snap)
    from olds [OF this] show ?thesis by (cases "t = st") (auto simp: self)
  qed
  have 3: "0 \<le> w \<and> w \<le> n + 1" if "self_clock s' t = Some w" for t w
    using that oldself [of t w] nonneg by (cases "t = st") (auto simp: self)
  from 1 2 3 show ?thesis unfolding clocks_bounded_def by blast
qed

lemma self_clock_state_wait_for_event:
  assumes inv: "clocks_bounded s n" and run: "state_wait_for_event s st e = Inr s'"
  shows "self_clock s' t = self_clock s t"
proof -
  from state_wait_for_event_view [OF run] obtain c' where
    clk: "\<forall>u. clock_of s' u = (if u = st then c' else clock_of s u)"
    and val: "\<forall>t. DAList.lookup c' t =
                 (case DAList.lookup (snapshot_of s e) t of
                    None \<Rightarrow> DAList.lookup (clock_of s st) t
                  | Some n \<Rightarrow> Some (max (dict_get (clock_of s st) t (- 1)) n))"
    by auto
  show ?thesis
  proof (cases "t = st")
    case False
    then show ?thesis using clk by (simp add: self_clock_def)
  next
    case True
    show ?thesis
    proof (cases "DAList.lookup (snapshot_of s e) st")
      case None
      with True clk val show ?thesis by (simp add: self_clock_def)
    next
      case (Some v)
      with inv obtain w where w: "self_clock s st = Some w" and "v \<le> w"
        unfolding clocks_bounded_def by blast
      then have "max (dict_get (clock_of s st) st (- 1)) v = w"
        by (simp add: self_clock_def dict_get_def)
      with True clk val Some w show ?thesis by (simp add: self_clock_def)
    qed
  qed
qed

lemma clocks_bounded_state_wait_for_event:
  assumes inv: "clocks_bounded s n" and run: "state_wait_for_event s st e = Inr s'"
  shows "clocks_bounded s' n"
proof -
  from state_wait_for_event_view [OF run] obtain c' where
    clk: "\<forall>u. clock_of s' u = (if u = st then c' else clock_of s u)"
    and snap: "\<forall>e'. snapshot_of s' e' = snapshot_of s e'"
    and val: "\<forall>t. DAList.lookup c' t =
                 (case DAList.lookup (snapshot_of s e) t of
                    None \<Rightarrow> DAList.lookup (clock_of s st) t
                  | Some n \<Rightarrow> Some (max (dict_get (clock_of s st) t (- 1)) n))"
    by auto
  note self = self_clock_state_wait_for_event [OF inv run]
  have old: "DAList.lookup (clock_of s u) t = Some v \<Longrightarrow>
             \<exists>w. self_clock s t = Some w \<and> 0 \<le> v \<and> v \<le> w"
    for u t v using inv unfolding clocks_bounded_def by blast
  have olds: "DAList.lookup (snapshot_of s e) t = Some v \<Longrightarrow>
              \<exists>w. self_clock s t = Some w \<and> 0 \<le> v \<and> v \<le> w"
    for e t v using inv unfolding clocks_bounded_def by blast
  have oldself: "self_clock s t = Some w \<Longrightarrow> 0 \<le> w \<and> w \<le> n" for t w
    using inv unfolding clocks_bounded_def by blast
  have new: "\<exists>w. self_clock s t = Some w \<and> 0 \<le> v \<and> v \<le> w"
    if "DAList.lookup c' t = Some v" for t v
  proof (cases "DAList.lookup (snapshot_of s e) t")
    case None
    with that val have "DAList.lookup (clock_of s st) t = Some v" by simp
    then show ?thesis by (rule old)
  next
    case (Some m)
    from olds [OF Some] obtain w where w: "self_clock s t = Some w" "0 \<le> m" "m \<le> w" by auto
    from that val Some have v: "v = max (dict_get (clock_of s st) t (- 1)) m" by simp
    have "dict_get (clock_of s st) t (- 1) \<le> w"
    proof (cases "DAList.lookup (clock_of s st) t")
      case None
      from oldself [OF w(1)] have "0 \<le> w" by simp
      with None show ?thesis by (simp add: dict_get_def)
    next
      case (Some x)
      from old [OF Some] w Some show ?thesis by (simp add: dict_get_def)
    qed
    with v w show ?thesis by simp
  qed
  have 1: "\<exists>w. self_clock s' t = Some w \<and> 0 \<le> v \<and> v \<le> w"
    if "DAList.lookup (clock_of s' u) t = Some v" for u t v
  proof (cases "u = st")
    case True
    with that clk have "DAList.lookup c' t = Some v" by simp
    from new [OF this] show ?thesis by (simp add: self)
  next
    case False
    with that clk have "DAList.lookup (clock_of s u) t = Some v" by simp
    from old [OF this] show ?thesis by (simp add: self)
  qed
  have 2: "\<exists>w. self_clock s' t = Some w \<and> 0 \<le> v \<and> v \<le> w"
    if "DAList.lookup (snapshot_of s' e') t = Some v" for e' t v
    using that snap olds [of e' t v] by (simp add: self)
  have 3: "0 \<le> w \<and> w \<le> n" if "self_clock s' t = Some w" for t w
    using that oldself [of t w] by (simp add: self)
  from 1 2 3 show ?thesis unfolding clocks_bounded_def by blast
qed

text \<open>
  In particular no entry of a bounded table lies below the default \<open>-1\<close> of a missing key.
\<close>

lemma clocks_bounded_entries:
  "clocks_bounded s n \<Longrightarrow> DAList.lookup (clock_of s u) t = Some v \<Longrightarrow> - 1 \<le> v"
  unfolding clocks_bounded_def by force

section \<open>Invariants of the launch handler\<close>

subsection \<open>The bound on the access log is kept\<close>

lemma log_bounded_mono: "log_bounded ta n \<Longrightarrow> n \<le> m \<Longrightarrow> log_bounded ta m"
  unfolding log_bounded_def by (meson order_trans)

lemma log_bounded_init: "log_bounded TensorsAccessed_init n"
  by (simp add: log_bounded_def TensorsAccessed_init_def)

lemma log_bounded_tensor_info:
  assumes "log_bounded ta n"
    and "a \<in> set (reads (tensor_info ta p)) \<or> write' (tensor_info ta p) = Some a"
  shows "Access.seq_num a \<le> n"
proof (cases "DAList.lookup (accesses ta) p")
  case None
  with assms(2) show ?thesis by (simp add: tensor_info_def dict_get_def)
next
  case (Some info)
  then have "tensor_info ta p = info" by (simp add: tensor_info_def dict_get_def)
  with assms Some show ?thesis unfolding log_bounded_def by blast
qed

lemma log_bounded_setitem:
  assumes "log_bounded ta n"
    and "\<And>a. a \<in> set (reads info) \<or> write' info = Some a \<Longrightarrow> Access.seq_num a \<le> n"
  shows "log_bounded (ta\<lparr>accesses := dict_setitem (accesses ta) p info\<rparr>) n"
  using assms unfolding log_bounded_def by (auto split: if_splits)

lemma log_bounded_create_tensor: "log_bounded ta n \<Longrightarrow> log_bounded (create_tensor ta p st) n"
  unfolding create_tensor_def by (rule log_bounded_setitem) simp_all

lemma log_bounded_ensure_tensor_exists:
  "log_bounded ta n \<Longrightarrow> log_bounded (ensure_tensor_exists ta p) n"
  by (simp add: ensure_tensor_exists_def log_bounded_create_tensor)

lemma log_bounded_subset:
  assumes "log_bounded ta n"
    and "\<And>q info. DAList.lookup (accesses ta') q = Some info \<Longrightarrow>
           DAList.lookup (accesses ta) q = Some info"
  shows "log_bounded ta' n"
  using assms unfolding log_bounded_def by blast

lemma log_bounded_delete_tensor:
  assumes "log_bounded ta n" and "delete_tensor ta p = Inr ta'"
  shows "log_bounded ta' n"
proof (rule log_bounded_subset [OF assms(1)])
  fix q info
  assume "DAList.lookup (accesses ta') q = Some info"
  with assms(2) show "DAList.lookup (accesses ta) q = Some info"
    by (auto simp: delete_tensor_def dict_delitem_def split: if_splits)
qed

lemma log_bounded_ensure_tensor_does_not_exist:
  "log_bounded ta n \<Longrightarrow> ensure_tensor_does_not_exist ta p = Inr ta' \<Longrightarrow> log_bounded ta' n"
  by (auto simp: ensure_tensor_does_not_exist_def log_bounded_delete_tensor split: if_splits)

subsection \<open>The two loop bodies\<close>

lemma read_only_step_KeyError:
  "dict_getitem tensor_names p = Inl x \<Longrightarrow>
   read_only_step strm opr tensor_names stack hl p = Inl x"
  by (simp add: read_only_step_def Let_def)

lemma read_write_step_KeyError:
  "dict_getitem tensor_names p = Inl x \<Longrightarrow>
   read_write_step strm opr tensor_names stack hl p = Inl x"
  by (simp add: read_write_step_def Let_def)

lemma conflict_reports_other_stream:
  assumes self: "current_value s (stream cur) (stream cur) = n"
    and bound: "\<And>a. a \<in> set prevs \<Longrightarrow> Access.seq_num a \<le> n"
    and r: "r \<in> set (conflict_reports s p alloc cur prevs)"
  shows "stream (previous_access r) \<noteq> stream (current_access r)"
proof -
  from r obtain prev where prev: "prev \<in> set prevs" "unordered s cur prev"
    and r_eq: "r = UnsynchronizedAccessError p alloc cur prev"
    by (auto simp: conflict_reports_def)
  show ?thesis
  proof
    assume "stream (previous_access r) = stream (current_access r)"
    then have "stream prev = stream cur" by (simp add: r_eq)
    with prev(2) self have "\<not> Access.seq_num prev \<le> n" by (simp add: unordered_def)
    with bound [OF prev(1)] show False by simp
  qed
qed

lemma for_each_invariant:
  assumes step: "\<And>s p s'. P s \<Longrightarrow> body s p = Inr s' \<Longrightarrow> P s'"
    and "P s" and "for_each body s ps = Inr s'"
  shows "P s'"
  using assms(2,3)
proof (induction ps arbitrary: s)
  case Nil
  then show ?case by simp
next
  case (Cons p ps)
  from Cons.prems(2) obtain s1 where b: "body s p = Inr s1" and rest: "for_each body s1 ps = Inr s'"
    by (cases "body s p") simp_all
  from step [OF Cons.prems(1) b] have "P s1" .
  from Cons.IH [OF this rest] show ?case .
qed

lemma read_only_step_cases:
  assumes "read_only_step strm opr tensor_names stack (h, errs) p = Inr (h', errs')"
  obtains nms where
    "h' = h\<lparr>tensors_accessed :=
              (ensure_tensor_exists (tensors_accessed h) p)
                \<lparr>accesses :=
                   dict_setitem (accesses (ensure_tensor_exists (tensors_accessed h) p)) p
                     ((tensor_info (tensors_accessed h) p)
                        \<lparr>reads := reads (tensor_info (tensors_accessed h) p) @
                           [\<lparr>type = READ, seq_num = EventHandler.seq_num h, stream = strm,
                             operator = opr, names = nms, stack_trace = stack\<rparr>]\<rparr>)\<rparr>,
            syncs := backfill_streams (syncs h) strm
                       (checked_by_read (tensor_info (tensors_accessed h) p))\<rparr>"
    and "errs' = errs @ conflict_reports (syncs h) p
                   (allocation_stack_trace (tensor_info (tensors_accessed h) p))
                   \<lparr>type = READ, seq_num = EventHandler.seq_num h, stream = strm,
                    operator = opr, names = nms, stack_trace = stack\<rparr>
                   (checked_by_read (tensor_info (tensors_accessed h) p))"
proof (cases "dict_getitem tensor_names p")
  case (Inl x)
  from read_only_step_KeyError [OF this] assms show ?thesis by simp
next
  case (Inr nms)
  from read_only_step_eq [OF this, of strm opr stack h errs] assms that [of nms]
  show ?thesis by (simp add: Let_def)
qed

lemma read_write_step_cases:
  assumes "read_write_step strm opr tensor_names stack (h, errs) p = Inr (h', errs')"
  obtains nms where
    "h' = h\<lparr>tensors_accessed :=
              (ensure_tensor_exists (tensors_accessed h) p)
                \<lparr>accesses :=
                   dict_setitem (accesses (ensure_tensor_exists (tensors_accessed h) p)) p
                     ((tensor_info (tensors_accessed h) p)
                        \<lparr>write' := Some \<lparr>type = WRITE, seq_num = EventHandler.seq_num h,
                                         stream = strm, operator = opr, names = nms,
                                         stack_trace = stack\<rparr>,
                         reads := []\<rparr>)\<rparr>,
            syncs := backfill_streams (syncs h) strm
                       (checked_by_write (tensor_info (tensors_accessed h) p))\<rparr>"
    and "errs' = errs @ conflict_reports (syncs h) p
                   (allocation_stack_trace (tensor_info (tensors_accessed h) p))
                   \<lparr>type = WRITE, seq_num = EventHandler.seq_num h, stream = strm,
                    operator = opr, names = nms, stack_trace = stack\<rparr>
                   (checked_by_write (tensor_info (tensors_accessed h) p))"
proof (cases "dict_getitem tensor_names p")
  case (Inl x)
  from read_write_step_KeyError [OF this] assms show ?thesis by simp
next
  case (Inr nms)
  from read_write_step_eq [OF this, of strm opr stack h errs] assms that [of nms]
  show ?thesis by (simp add: Let_def)
qed

lemma checked_by_read_set: "a \<in> set (checked_by_read info) \<Longrightarrow> write' info = Some a"
  by (auto simp: checked_by_read_def split: option.splits)

lemma checked_by_write_set:
  "a \<in> set (checked_by_write info) \<Longrightarrow> a \<in> set (reads info) \<or> write' info = Some a"
  by (auto simp: checked_by_write_def dest: checked_by_read_set split: if_splits)

lemma read_only_step_launch_frame:
  assumes "launch_frame s0 n hl" and "read_only_step strm opr tensor_names stack hl p = Inr hl'"
  shows "launch_frame s0 n hl'"
proof -
  obtain h errs h' errs' where hl: "hl = (h, errs)" "hl' = (h', errs')"
    by (cases hl, cases hl') auto
  from assms(2) [unfolded hl] show ?thesis
  proof (cases rule: read_only_step_cases)
    case (1 nms)
    have "same_clocks (syncs h) (syncs h')" unfolding 1(1) by simp
    with assms(1) same_clocks_trans [of s0 "syncs h" "syncs h'"] show ?thesis
      by (simp add: launch_frame_def hl 1(1))
  qed
qed

lemma read_write_step_launch_frame:
  assumes "launch_frame s0 n hl" and "read_write_step strm opr tensor_names stack hl p = Inr hl'"
  shows "launch_frame s0 n hl'"
proof -
  obtain h errs h' errs' where hl: "hl = (h, errs)" "hl' = (h', errs')"
    by (cases hl, cases hl') auto
  from assms(2) [unfolded hl] show ?thesis
  proof (cases rule: read_write_step_cases)
    case (1 nms)
    have "same_clocks (syncs h) (syncs h')" unfolding 1(1) by simp
    with assms(1) same_clocks_trans [of s0 "syncs h" "syncs h'"] show ?thesis
      by (simp add: launch_frame_def hl 1(1))
  qed
qed

lemma read_only_step_launch_inv:
  assumes self: "current_value s0 strm strm = n"
    and inv: "launch_inv s0 n hl"
    and run: "read_only_step strm opr tensor_names stack hl p = Inr hl'"
  shows "launch_inv s0 n hl'"
proof -
  obtain h errs h' errs' where hl: "hl = (h, errs)" "hl' = (h', errs')"
    by (cases hl, cases hl') auto
  from inv have frame: "launch_frame s0 n hl" and seq: "EventHandler.seq_num h = n"
    and same: "same_clocks s0 (syncs h)" and log: "log_bounded (tensors_accessed h) n"
    and reps: "\<forall>r \<in> set errs. stream (previous_access r) \<noteq> stream (current_access r)"
    by (simp_all add: launch_inv_def launch_frame_def hl)
  have frame': "launch_frame s0 n hl'"
    using frame run by (rule read_only_step_launch_frame)
  let ?info = "tensor_info (tensors_accessed h) p"
  have self_h: "current_value (syncs h) strm strm = n"
    using same_clocks_current_value [OF same] self by simp
  from run [unfolded hl] show ?thesis
  proof (cases rule: read_only_step_cases)
    case (1 nms)
    let ?cur = "\<lparr>type = READ, seq_num = EventHandler.seq_num h, stream = strm,
                 operator = opr, names = nms, stack_trace = stack\<rparr>"
    have "log_bounded
            ((ensure_tensor_exists (tensors_accessed h) p)
               \<lparr>accesses :=
                  dict_setitem (accesses (ensure_tensor_exists (tensors_accessed h) p)) p
                    (?info\<lparr>reads := reads ?info @ [?cur]\<rparr>)\<rparr>) n"
    proof (rule log_bounded_setitem [OF log_bounded_ensure_tensor_exists [OF log]])
      fix a
      assume "a \<in> set (reads (?info\<lparr>reads := reads ?info @ [?cur]\<rparr>)) \<or>
              write' (?info\<lparr>reads := reads ?info @ [?cur]\<rparr>) = Some a"
      then consider "a \<in> set (reads ?info) \<or> write' ?info = Some a" | "a = ?cur" by auto
      then show "Access.seq_num a \<le> n"
      proof cases
        case 1
        then show ?thesis by (rule log_bounded_tensor_info [OF log])
      next
        case 2
        then show ?thesis using seq by simp
      qed
    qed
    then have log': "log_bounded (tensors_accessed h') n" by (simp add: 1(1))
    have new: "stream (previous_access r) \<noteq> stream (current_access r)"
      if "r \<in> set (conflict_reports (syncs h) p (allocation_stack_trace ?info) ?cur
                      (checked_by_read ?info))" for r
    proof (rule conflict_reports_other_stream [OF _ _ that])
      show "current_value (syncs h) (stream ?cur) (stream ?cur) = n" using self_h by simp
    next
      fix a assume "a \<in> set (checked_by_read ?info)"
      then have "write' ?info = Some a" by (rule checked_by_read_set)
      then show "Access.seq_num a \<le> n" using log_bounded_tensor_info [OF log, of a p] by simp
    qed
    have reps': "\<forall>r \<in> set errs'. stream (previous_access r) \<noteq> stream (current_access r)"
      unfolding 1(2) using reps new by auto
    from frame' log' reps' show ?thesis by (simp add: launch_inv_def hl)
  qed
qed

lemma read_write_step_launch_inv:
  assumes self: "current_value s0 strm strm = n"
    and inv: "launch_inv s0 n hl"
    and run: "read_write_step strm opr tensor_names stack hl p = Inr hl'"
  shows "launch_inv s0 n hl'"
proof -
  obtain h errs h' errs' where hl: "hl = (h, errs)" "hl' = (h', errs')"
    by (cases hl, cases hl') auto
  from inv have frame: "launch_frame s0 n hl" and seq: "EventHandler.seq_num h = n"
    and same: "same_clocks s0 (syncs h)" and log: "log_bounded (tensors_accessed h) n"
    and reps: "\<forall>r \<in> set errs. stream (previous_access r) \<noteq> stream (current_access r)"
    by (simp_all add: launch_inv_def launch_frame_def hl)
  have frame': "launch_frame s0 n hl'"
    using frame run by (rule read_write_step_launch_frame)
  let ?info = "tensor_info (tensors_accessed h) p"
  have self_h: "current_value (syncs h) strm strm = n"
    using same_clocks_current_value [OF same] self by simp
  from run [unfolded hl] show ?thesis
  proof (cases rule: read_write_step_cases)
    case (1 nms)
    let ?cur = "\<lparr>type = WRITE, seq_num = EventHandler.seq_num h, stream = strm,
                 operator = opr, names = nms, stack_trace = stack\<rparr>"
    have "log_bounded
            ((ensure_tensor_exists (tensors_accessed h) p)
               \<lparr>accesses :=
                  dict_setitem (accesses (ensure_tensor_exists (tensors_accessed h) p)) p
                    (?info\<lparr>write' := Some ?cur, reads := []\<rparr>)\<rparr>) n"
    proof (rule log_bounded_setitem [OF log_bounded_ensure_tensor_exists [OF log]])
      fix a
      assume "a \<in> set (reads (?info\<lparr>write' := Some ?cur, reads := []\<rparr>)) \<or>
              write' (?info\<lparr>write' := Some ?cur, reads := []\<rparr>) = Some a"
      then have "a = ?cur" by auto
      then show "Access.seq_num a \<le> n" using seq by simp
    qed
    then have log': "log_bounded (tensors_accessed h') n" by (simp add: 1(1))
    have new: "stream (previous_access r) \<noteq> stream (current_access r)"
      if "r \<in> set (conflict_reports (syncs h) p (allocation_stack_trace ?info) ?cur
                      (checked_by_write ?info))" for r
    proof (rule conflict_reports_other_stream [OF _ _ that])
      show "current_value (syncs h) (stream ?cur) (stream ?cur) = n" using self_h by simp
    next
      fix a assume "a \<in> set (checked_by_write ?info)"
      then have "a \<in> set (reads ?info) \<or> write' ?info = Some a" by (rule checked_by_write_set)
      then show "Access.seq_num a \<le> n" by (rule log_bounded_tensor_info [OF log])
    qed
    have reps': "\<forall>r \<in> set errs'. stream (previous_access r) \<noteq> stream (current_access r)"
      unfolding 1(2) using reps new by auto
    from frame' log' reps' show ?thesis by (simp add: launch_inv_def hl)
  qed
qed

subsection \<open>A whole launch\<close>

lemma handle_kernel_launch_cases:
  assumes "handle_kernel_launch h strm read_only read_write opr tensor_names stack = Inr (errs, h')"
  obtains s0 hl1 where
    "update_seq_num (syncs h) strm (EventHandler.seq_num h + 1) = Inr s0"
    and "for_each (read_only_step strm opr tensor_names stack)
           (h\<lparr>seq_num := EventHandler.seq_num h + 1, syncs := s0\<rparr>, []) read_only = Inr hl1"
    and "for_each (read_write_step strm opr tensor_names stack) hl1 read_write = Inr (h', errs)"
proof -
  obtain s0 where s0: "update_seq_num (syncs h) strm (EventHandler.seq_num h + 1) = Inr s0"
    by (simp add: update_seq_num_eq)
  let ?start = "(h\<lparr>seq_num := EventHandler.seq_num h + 1, syncs := s0\<rparr>, [])"
  from assms s0 obtain hl1 where
    ro: "for_each (read_only_step strm opr tensor_names stack) ?start read_only = Inr hl1"
    by (cases "for_each (read_only_step strm opr tensor_names stack) ?start read_only")
       (simp_all add: handle_kernel_launch_def Let_def)
  from assms s0 ro have
    "for_each (read_write_step strm opr tensor_names stack) hl1 read_write = Inr (h', errs)"
    by (cases "for_each (read_write_step strm opr tensor_names stack) hl1 read_write")
       (auto simp: handle_kernel_launch_def Let_def)
  with s0 ro show ?thesis by (rule that)
qed

lemma handle_kernel_launch_frame:
  assumes "handle_kernel_launch h strm read_only read_write opr tensor_names stack = Inr (errs, h')"
  shows "EventHandler.seq_num h' = EventHandler.seq_num h + 1"
    and "self_clock (syncs h') t =
           (if t = strm then Some (EventHandler.seq_num h + 1) else self_clock (syncs h) t)"
proof -
  from assms obtain s0 hl1 where
    s0: "update_seq_num (syncs h) strm (EventHandler.seq_num h + 1) = Inr s0"
    and ro: "for_each (read_only_step strm opr tensor_names stack)
               (h\<lparr>seq_num := EventHandler.seq_num h + 1, syncs := s0\<rparr>, []) read_only = Inr hl1"
    and rw: "for_each (read_write_step strm opr tensor_names stack) hl1 read_write = Inr (h', errs)"
    by (rule handle_kernel_launch_cases)
  let ?n = "EventHandler.seq_num h + 1"
  have start: "launch_frame s0 ?n (h\<lparr>seq_num := ?n, syncs := s0\<rparr>, [])"
    by (simp add: launch_frame_def)
  have mid: "launch_frame s0 ?n hl1"
    by (rule for_each_invariant [where P = "launch_frame s0 ?n", OF _ start ro])
       (rule read_only_step_launch_frame)
  have fin: "launch_frame s0 ?n (h', errs)"
    by (rule for_each_invariant [where P = "launch_frame s0 ?n", OF _ mid rw])
       (rule read_write_step_launch_frame)
  from fin show "EventHandler.seq_num h' = ?n" by (simp add: launch_frame_def)
  from fin have "same_clocks s0 (syncs h')" by (simp add: launch_frame_def)
  from same_clocks_self_clock [OF this] self_clock_update_seq_num [OF s0]
  show "self_clock (syncs h') t = (if t = strm then Some ?n else self_clock (syncs h) t)"
    by simp
qed

lemma handle_kernel_launch_inv:
  assumes clocks: "clocks_bounded (syncs h) (EventHandler.seq_num h)"
    and nonneg: "0 \<le> EventHandler.seq_num h"
    and log: "log_bounded (tensors_accessed h) (EventHandler.seq_num h)"
    and run: "handle_kernel_launch h strm read_only read_write opr tensor_names stack = Inr (errs, h')"
  shows "clocks_bounded (syncs h') (EventHandler.seq_num h')"
    and "log_bounded (tensors_accessed h') (EventHandler.seq_num h')"
    and "\<forall>r \<in> set errs. stream (previous_access r) \<noteq> stream (current_access r)"
proof -
  from run obtain s0 hl1 where
    s0: "update_seq_num (syncs h) strm (EventHandler.seq_num h + 1) = Inr s0"
    and ro: "for_each (read_only_step strm opr tensor_names stack)
               (h\<lparr>seq_num := EventHandler.seq_num h + 1, syncs := s0\<rparr>, []) read_only = Inr hl1"
    and rw: "for_each (read_write_step strm opr tensor_names stack) hl1 read_write = Inr (h', errs)"
    by (rule handle_kernel_launch_cases)
  let ?n = "EventHandler.seq_num h + 1"
  note seq' = handle_kernel_launch_frame(1) [OF run]
  have cb0: "clocks_bounded s0 ?n"
    using clocks nonneg s0 by (rule clocks_bounded_update_seq_num)
  have self0: "current_value s0 strm strm = ?n"
    using self_clock_update_seq_num [OF s0, of strm]
    by (simp add: self_clock_def current_value_def dict_get_def)
  have start: "launch_inv s0 ?n (h\<lparr>seq_num := ?n, syncs := s0\<rparr>, [])"
    using log_bounded_mono [OF log, of ?n] by (simp add: launch_inv_def launch_frame_def)
  have mid: "launch_inv s0 ?n hl1"
    by (rule for_each_invariant [where P = "launch_inv s0 ?n", OF _ start ro])
       (rule read_only_step_launch_inv [OF self0])
  have fin: "launch_inv s0 ?n (h', errs)"
    by (rule for_each_invariant [where P = "launch_inv s0 ?n", OF _ mid rw])
       (rule read_write_step_launch_inv [OF self0])
  from fin have same: "same_clocks s0 (syncs h')"
    and log': "log_bounded (tensors_accessed h') ?n"
    and reps: "\<forall>r \<in> set errs. stream (previous_access r) \<noteq> stream (current_access r)"
    by (simp_all add: launch_inv_def launch_frame_def)
  from clocks_bounded_same_clocks [OF same cb0]
  show "clocks_bounded (syncs h') (EventHandler.seq_num h')" by (simp add: seq')
  from log' show "log_bounded (tensors_accessed h') (EventHandler.seq_num h')" by (simp add: seq')
  from reps show "\<forall>r \<in> set errs. stream (previous_access r) \<noteq> stream (current_access r)" .
qed

subsection \<open>Any invocation\<close>

lemma handler_inv_init: "handler_inv EventHandler_init"
  by (simp add: handler_inv_def EventHandler_init_def clocks_bounded_init log_bounded_init)

lemma handle_launch:
  assumes inv: "handler_inv h"
    and run: "handle h (KernelLaunch strm read_only read_write opr tensor_names stack) = Inr (out, h')"
  shows "handler_inv h'"
    and "EventHandler.seq_num h' = EventHandler.seq_num h + 1"
    and "self_clock (syncs h') t =
           (if t = strm then Some (EventHandler.seq_num h + 1) else self_clock (syncs h) t)"
    and "\<exists>errs. out = Some errs \<and>
           (\<forall>r \<in> set errs. stream (previous_access r) \<noteq> stream (current_access r))"
proof -
  from run obtain errs where out: "out = Some errs"
    and launch: "handle_kernel_launch h strm read_only read_write opr tensor_names stack = Inr (errs, h')"
    by (cases "handle_kernel_launch h strm read_only read_write opr tensor_names stack") auto
  from inv have nonneg: "0 \<le> EventHandler.seq_num h"
    and clocks: "clocks_bounded (syncs h) (EventHandler.seq_num h)"
    and log: "log_bounded (tensors_accessed h) (EventHandler.seq_num h)"
    by (simp_all add: handler_inv_def)
  note frame = handle_kernel_launch_frame [OF launch]
  note keep = handle_kernel_launch_inv [OF clocks nonneg log launch]
  from frame(1) nonneg keep(1,2) show "handler_inv h'" by (simp add: handler_inv_def)
  from frame(1) show "EventHandler.seq_num h' = EventHandler.seq_num h + 1" .
  from frame(2) show "self_clock (syncs h') t =
           (if t = strm then Some (EventHandler.seq_num h + 1) else self_clock (syncs h) t)" .
  from out keep(3) show "\<exists>errs. out = Some errs \<and>
           (\<forall>r \<in> set errs. stream (previous_access r) \<noteq> stream (current_access r))"
    by simp
qed

lemma handler_inv_syncs:
  assumes "handler_inv h" and "clocks_bounded s' (EventHandler.seq_num h)"
  shows "handler_inv (h\<lparr>syncs := s'\<rparr>)"
  using assms by (simp add: handler_inv_def)

lemma handler_inv_tensors_accessed:
  assumes "handler_inv h" and "log_bounded ta' (EventHandler.seq_num h)"
  shows "handler_inv (h\<lparr>tensors_accessed := ta'\<rparr>)"
  using assms by (simp add: handler_inv_def)

lemma handle_other:
  assumes inv: "handler_inv h"
    and run: "handle h ev = Inr (out, h')"
    and other: "\<And>strm read_only read_write opr tensor_names stack.
                  ev \<noteq> KernelLaunch strm read_only read_write opr tensor_names stack"
  shows "handler_inv h'"
    and "EventHandler.seq_num h' = EventHandler.seq_num h"
    and "self_clock (syncs h') t = self_clock (syncs h) t"
    and "out = None"
proof -
  from inv have clocks: "clocks_bounded (syncs h) (EventHandler.seq_num h)"
    and log: "log_bounded (tensors_accessed h) (EventHandler.seq_num h)"
    by (simp_all add: handler_inv_def)
  have "handler_inv h' \<and> EventHandler.seq_num h' = EventHandler.seq_num h \<and>
        self_clock (syncs h') t = self_clock (syncs h) t \<and> out = None"
  proof (cases ev)
    case (KernelLaunch strm read_only read_write opr tensor_names stack)
    with other [of strm read_only read_write opr tensor_names stack] show ?thesis
      by contradiction
  next
    case (EventCreation e)
    with run obtain s' where s': "create_event (syncs h) e = Inr s'"
      and h': "h' = h\<lparr>syncs := s'\<rparr>" and out: "out = None"
      by (cases "create_event (syncs h) e") (auto simp: handle_event_creation_def)
    from clocks_bounded_create_event [OF clocks s'] handler_inv_syncs [OF inv] out
    show ?thesis by (simp add: h')
  next
    case (EventDeletion e)
    with run obtain s' where s': "delete_event (syncs h) e = Inr s'"
      and h': "h' = h\<lparr>syncs := s'\<rparr>" and out: "out = None"
      by (cases "delete_event (syncs h) e") (auto simp: handle_event_deletion_def)
    from clocks_bounded_delete_event [OF clocks s'] handler_inv_syncs [OF inv] out
    show ?thesis by (simp add: h')
  next
    case (EventRecord e strm)
    with run obtain s' where s': "record_state (syncs h) e strm = Inr s'"
      and h': "h' = h\<lparr>syncs := s'\<rparr>" and out: "out = None"
      by (cases "record_state (syncs h) e strm") (auto simp: handle_event_record_def)
    from clocks_bounded_record_state [OF clocks s'] handler_inv_syncs [OF inv] out
    show ?thesis by (simp add: h')
  next
    case (EventWait e strm)
    with run obtain s' where s': "state_wait_for_event (syncs h) strm e = Inr s'"
      and h': "h' = h\<lparr>syncs := s'\<rparr>" and out: "out = None"
      by (cases "state_wait_for_event (syncs h) strm e") (auto simp: handle_event_wait_def)
    from clocks_bounded_state_wait_for_event [OF clocks s']
      self_clock_state_wait_for_event [OF clocks s'] handler_inv_syncs [OF inv] out
    show ?thesis by (simp add: h')
  next
    case (MemoryAllocation p stack)
    with run obtain ta where ta: "ensure_tensor_does_not_exist (tensors_accessed h) p = Inr ta"
      and h': "h' = h\<lparr>tensors_accessed := create_tensor ta p (Some stack)\<rparr>" and out: "out = None"
      by (cases "ensure_tensor_does_not_exist (tensors_accessed h) p")
         (auto simp: handle_memory_allocation_def)
    from log_bounded_create_tensor [OF log_bounded_ensure_tensor_does_not_exist [OF log ta]]
      handler_inv_tensors_accessed [OF inv] out
    show ?thesis by (simp add: h')
  next
    case (MemoryDeallocation p)
    with run obtain ta where
      ta: "delete_tensor (ensure_tensor_exists (tensors_accessed h) p) p = Inr ta"
      and h': "h' = h\<lparr>tensors_accessed := ta\<rparr>" and out: "out = None"
      by (cases "delete_tensor (ensure_tensor_exists (tensors_accessed h) p) p")
         (auto simp: handle_memory_deallocation_def)
    from log_bounded_delete_tensor [OF log_bounded_ensure_tensor_exists [OF log] ta]
      handler_inv_tensors_accessed [OF inv] out
    show ?thesis by (simp add: h')
  next
    case (StreamCreation strm)
    with run have h': "h' = h\<lparr>syncs := create_stream (syncs h) strm\<rparr>" and out: "out = None"
      by (auto simp: handle_stream_creation_def)
    have same: "same_clocks (syncs h) (create_stream (syncs h) strm)" by simp
    from clocks_bounded_same_clocks [OF same clocks] same_clocks_self_clock [OF same]
      handler_inv_syncs [OF inv] out
    show ?thesis by (simp add: h')
  qed
  then show "handler_inv h'" and "EventHandler.seq_num h' = EventHandler.seq_num h"
    and "self_clock (syncs h') t = self_clock (syncs h) t" and "out = None"
    by simp_all
qed

subsection \<open>A run\<close>

lemma last_launch_other:
  assumes "\<And>strm read_only read_write opr tensor_names stack.
             ev \<noteq> KernelLaunch strm read_only read_write opr tensor_names stack"
  shows "last_launch n (ev # evs) s = last_launch n evs s"
proof (cases ev)
  case (KernelLaunch strm read_only read_write opr tensor_names stack)
  with assms [of strm read_only read_write opr tensor_names stack] show ?thesis
    by contradiction
qed simp_all

lemma run_inv:
  assumes "handler_inv h" and "run h evs = Inr (outs, h')"
  shows "handler_inv h' \<and>
         (\<forall>t. self_clock (syncs h') t =
               (case last_launch (EventHandler.seq_num h) evs t of
                  None \<Rightarrow> self_clock (syncs h) t
                | Some n \<Rightarrow> Some n)) \<and>
         (\<forall>errs r. Some errs \<in> set outs \<longrightarrow> r \<in> set errs \<longrightarrow>
               stream (previous_access r) \<noteq> stream (current_access r))"
  using assms
proof (induction evs arbitrary: h outs)
  case Nil
  then show ?case by simp
next
  case (Cons ev evs)
  from Cons.prems(2) obtain out h1 outs1 where
    first: "handle h ev = Inr (out, h1)" and rest: "run h1 evs = Inr (outs1, h')"
    and outs: "outs = out # outs1"
    by (cases "handle h ev"; cases "run (snd (projr (handle h ev))) evs") auto
  show ?case
  proof (cases "\<exists>strm read_only read_write opr tensor_names stack.
                  ev = KernelLaunch strm read_only read_write opr tensor_names stack")
    case True
    then obtain strm read_only read_write opr tensor_names stack where
      ev: "ev = KernelLaunch strm read_only read_write opr tensor_names stack" by blast
    note l = handle_launch [OF Cons.prems(1) first [unfolded ev]]
    from Cons.IH [OF l(1) rest] have
      inv': "handler_inv h'"
      and self: "\<forall>t. self_clock (syncs h') t =
               (case last_launch (EventHandler.seq_num h1) evs t of
                  None \<Rightarrow> self_clock (syncs h1) t
                | Some n \<Rightarrow> Some n)"
      and reps: "\<forall>errs r. Some errs \<in> set outs1 \<longrightarrow> r \<in> set errs \<longrightarrow>
               stream (previous_access r) \<noteq> stream (current_access r)"
      by simp_all
    have self': "\<forall>t. self_clock (syncs h') t =
               (case last_launch (EventHandler.seq_num h) (ev # evs) t of
                  None \<Rightarrow> self_clock (syncs h) t
                | Some n \<Rightarrow> Some n)"
      using self l(3) by (auto simp: ev l(2) split: option.splits)
    have reps': "\<forall>errs r. Some errs \<in> set outs \<longrightarrow> r \<in> set errs \<longrightarrow>
               stream (previous_access r) \<noteq> stream (current_access r)"
      using reps l(4) by (auto simp: outs)
    from inv' self' reps' show ?thesis by simp
  next
    case False
    then have other: "\<And>strm read_only read_write opr tensor_names stack.
                  ev \<noteq> KernelLaunch strm read_only read_write opr tensor_names stack"
      by blast
    note o = handle_other [OF Cons.prems(1) first other]
    from Cons.IH [OF o(1) rest] have
      inv': "handler_inv h'"
      and self: "\<forall>t. self_clock (syncs h') t =
               (case last_launch (EventHandler.seq_num h1) evs t of
                  None \<Rightarrow> self_clock (syncs h1) t
                | Some n \<Rightarrow> Some n)"
      and reps: "\<forall>errs r. Some errs \<in> set outs1 \<longrightarrow> r \<in> set errs \<longrightarrow>
               stream (previous_access r) \<noteq> stream (current_access r)"
      by simp_all
    have self': "\<forall>t. self_clock (syncs h') t =
               (case last_launch (EventHandler.seq_num h) (ev # evs) t of
                  None \<Rightarrow> self_clock (syncs h) t
                | Some n \<Rightarrow> Some n)"
      using self by (simp add: last_launch_other [OF other] o(2) o(3) split: option.splits)
    have reps': "\<forall>errs r. Some errs \<in> set outs \<longrightarrow> r \<in> set errs \<longrightarrow>
               stream (previous_access r) \<noteq> stream (current_access r)"
      using reps o(4) by (auto simp: outs)
    from inv' self' reps' show ?thesis by simp
  qed
qed

text \<open>
  In every table that a run of the fresh handler builds, no entry of a clock lies below the
  default \<open>-1\<close>: the tables of a run meet the proviso of claim C5.
\<close>

lemma run_clock_entries:
  assumes "run EventHandler_init evs = Inr (outs, h)"
    and "DAList.lookup (clock_of (syncs h) u) t = Some v"
  shows "- 1 \<le> v"
proof -
  from run_inv [OF handler_inv_init assms(1)] have "handler_inv h" by simp
  then have "clocks_bounded (syncs h) (EventHandler.seq_num h)" by (simp add: handler_inv_def)
  from clocks_bounded_entries [OF this assms(2)] show ?thesis .
qed

lemma self_clock_init: "self_clock StreamSynchronizations_init t = None"
  by (simp add: self_clock_def StreamSynchronizations_init_def clock_of_def)

text \<open>
  Claim C7.  A launch on stream \<open>strm\<close> that returns has raised the counter by one, to \<open>n\<close> say,
  and leaves \<open>current[strm][strm] = n\<close>, whatever the handler was before.  And after any run
  from the fresh handler, \<open>current[s][s]\<close> is, for every stream \<open>s\<close>, the sequence number of the
  most recent launch on \<open>s\<close> in the trace, and is unset when the trace has no launch on \<open>s\<close>.
\<close>

theorem C7_bumped_self_clock:
  "(handle_kernel_launch h strm read_only read_write opr tensor_names stack = Inr (errs, h') \<longrightarrow>
      EventHandler.seq_num h' = EventHandler.seq_num h + 1 \<and>
      self_clock (syncs h') strm = Some (EventHandler.seq_num h')) \<and>
   (run EventHandler_init evs = Inr (outs, hf) \<longrightarrow>
      self_clock (syncs hf) s = last_launch 0 evs s)"
proof (intro conjI impI)
  assume launch: "handle_kernel_launch h strm read_only read_write opr tensor_names stack = Inr (errs, h')"
  from handle_kernel_launch_frame(1) [OF launch]
  show "EventHandler.seq_num h' = EventHandler.seq_num h + 1" .
  with handle_kernel_launch_frame(2) [OF launch, of strm]
  show "self_clock (syncs h') strm = Some (EventHandler.seq_num h')" by simp
next
  assume "run EventHandler_init evs = Inr (outs, hf)"
  from run_inv [OF handler_inv_init this]
  have "self_clock (syncs hf) s =
          (case last_launch (EventHandler.seq_num EventHandler_init) evs s of
             None \<Rightarrow> self_clock (syncs EventHandler_init) s
           | Some n \<Rightarrow> Some n)"
    by simp
  then show "self_clock (syncs hf) s = last_launch 0 evs s"
    by (simp add: self_clock_init EventHandler_init_def split: option.splits)
qed

theorem C7_bumped_self_clock_witness:
  "(\<exists>errs h'. handle_kernel_launch EventHandler_init 0 [] [] ''op'' DAList.empty [] = Inr (errs, h') \<and>
       EventHandler.seq_num h' = 1 \<and> self_clock (syncs h') 0 = Some 1) \<and>
   (\<exists>outs hf. run EventHandler_init
        [StreamCreation 3, KernelLaunch 0 [] [] ''op'' DAList.empty [],
         KernelLaunch 3 [] [] ''op'' DAList.empty [], EventCreation 7, EventRecord 7 3,
         EventWait 7 0, KernelLaunch 0 [] [] ''op'' DAList.empty []] = Inr (outs, hf) \<and>
       self_clock (syncs hf) 0 = Some 3 \<and> self_clock (syncs hf) 3 = Some 2 \<and>
       self_clock (syncs hf) 5 = None)"
proof -
  let ?evs = "[StreamCreation 3, KernelLaunch 0 [] [] ''op'' DAList.empty [],
         KernelLaunch 3 [] [] ''op'' DAList.empty [], EventCreation 7, EventRecord 7 3,
         EventWait 7 0, KernelLaunch 0 [] [] ''op'' DAList.empty []]"
  have "\<exists>errs h'. handle_kernel_launch EventHandler_init 0 [] [] ''op'' DAList.empty [] = Inr (errs, h')"
    by (simp add: handle_kernel_launch_def update_seq_num_eq Let_def)
  then obtain errs h' where
    l: "handle_kernel_launch EventHandler_init 0 [] [] ''op'' DAList.empty [] = Inr (errs, h')"
    by (elim exE)
  from C7_bumped_self_clock [THEN conjunct1, THEN mp, OF l]
  have "EventHandler.seq_num h' = 1 \<and> self_clock (syncs h') 0 = Some 1"
    by (simp add: EventHandler_init_def)
  with l have 1: "\<exists>errs h'. handle_kernel_launch EventHandler_init 0 [] [] ''op'' DAList.empty [] = Inr (errs, h') \<and>
       EventHandler.seq_num h' = 1 \<and> self_clock (syncs h') 0 = Some 1"
    by (intro exI [of _ errs] exI [of _ h'] conjI) simp_all
  have "\<exists>outs hf. run EventHandler_init ?evs = Inr (outs, hf)"
    by (simp add: EventHandler_init_def TensorsAccessed_init_def StreamSynchronizations_init_def
        handler_defs update_seq_num_eq create_event_eq record_state_eq Let_def
        create_stream_def ensure_stream_exists_def state_wait_for_event_def
        ensure_event_exists_eq dict_items_def update.rep_eq empty.rep_eq dict_setitem_def
        dict_getitem_def dict_contains_def dict_get_def lookup_update clock_of_def)
  then obtain outs hf where r: "run EventHandler_init ?evs = Inr (outs, hf)"
    by (elim exE)
  note c = C7_bumped_self_clock [THEN conjunct2, THEN mp, OF r]
  have "self_clock (syncs hf) 0 = Some 3" "self_clock (syncs hf) 3 = Some 2"
    "self_clock (syncs hf) 5 = None"
    by (simp_all add: c)
  with r have 2: "\<exists>outs hf. run EventHandler_init ?evs = Inr (outs, hf) \<and>
       self_clock (syncs hf) 0 = Some 3 \<and> self_clock (syncs hf) 3 = Some 2 \<and>
       self_clock (syncs hf) 5 = None"
    by (intro exI [of _ outs] exI [of _ hf] conjI)
  from 1 2 show ?thesis by (rule conjI)
qed

text \<open>
  Claim C2.  In a run from the fresh handler, no report in the list returned by any launch
  cites two accesses \<open>a\<close> and \<open>b\<close> of the same stream with \<open>a.seq_num < b.seq_num\<close>, as its
  previous and current access in either order: the two accesses of a report are always on
  different streams.
\<close>

theorem C2_same_stream_never_races:
  assumes "run EventHandler_init evs = Inr (outs, hf)"
    and "Some errs \<in> set outs" and "r \<in> set errs"
    and "stream a = stream b" and "Access.seq_num a < Access.seq_num b"
  shows "\<not> cites r a b"
proof
  assume "cites r a b"
  with assms(4) have "stream (previous_access r) = stream (current_access r)"
    by (auto simp: cites_def)
  moreover from run_inv [OF handler_inv_init assms(1)] assms(2,3)
  have "stream (previous_access r) \<noteq> stream (current_access r)" by blast
  ultimately show False by contradiction
qed

theorem C2_same_stream_never_races_witness:
  "\<exists>hf. run EventHandler_init
          [KernelLaunch 0 [] [11] ''op'' (dict_setitem DAList.empty 11 [''x'']) [],
           KernelLaunch 1 [11] [] ''op'' (dict_setitem DAList.empty 11 [''x'']) []] =
        Inr ([Some [],
              Some [UnsynchronizedAccessError 11 None
                      \<lparr>type = READ, seq_num = 2, stream = 1, operator = ''op'',
                       names = [''x''], stack_trace = []\<rparr>
                      \<lparr>type = WRITE, seq_num = 1, stream = 0, operator = ''op'',
                       names = [''x''], stack_trace = []\<rparr>]], hf) \<and>
        \<not> cites (UnsynchronizedAccessError 11 None
                   \<lparr>type = READ, seq_num = 2, stream = 1, operator = ''op'',
                    names = [''x''], stack_trace = []\<rparr>
                   \<lparr>type = WRITE, seq_num = 1, stream = 0, operator = ''op'',
                    names = [''x''], stack_trace = []\<rparr>)
             \<lparr>type = WRITE, seq_num = 1, stream = 0, operator = ''op'',
              names = [''x''], stack_trace = []\<rparr>
             \<lparr>type = READ, seq_num = 2, stream = 0, operator = ''op'',
              names = [''x''], stack_trace = []\<rparr>"
proof -
  let ?evs = "[KernelLaunch 0 [] [11] ''op'' (dict_setitem DAList.empty 11 [''x'']) [],
               KernelLaunch 1 [11] [] ''op'' (dict_setitem DAList.empty 11 [''x'']) []]"
  let ?r = "UnsynchronizedAccessError 11 None
              \<lparr>type = READ, seq_num = 2, stream = 1, operator = ''op'',
               names = [''x''], stack_trace = []\<rparr>
              \<lparr>type = WRITE, seq_num = 1, stream = 0, operator = ''op'',
               names = [''x''], stack_trace = []\<rparr>"
  let ?a = "\<lparr>type = WRITE, seq_num = 1, stream = 0, operator = ''op'',
             names = [''x''], stack_trace = []\<rparr>"
  let ?b = "\<lparr>type = READ, seq_num = 2, stream = 0, operator = ''op'',
             names = [''x''], stack_trace = []\<rparr>"
  have "\<exists>hf. run EventHandler_init ?evs = Inr ([Some [], Some [?r]], hf)"
    by (simp add: EventHandler_init_def TensorsAccessed_init_def StreamSynchronizations_init_def
        handler_defs log_defs set_write_eq read_only_step_def read_write_step_def check_conflict_def
        is_ordered_after_eq update_seq_num_eq create_stream_def ensure_stream_exists_def
        Let_def dict_delitem_def current_value_def clock_of_def)
  then obtain hf where r: "run EventHandler_init ?evs = Inr ([Some [], Some [?r]], hf)"
    by (elim exE)
  have m1: "Some [?r] \<in> set [Some [], Some [?r]]" by simp
  have m2: "?r \<in> set [?r]" by simp
  have s: "stream ?a = stream ?b" by simp
  have lt: "Access.seq_num ?a < Access.seq_num ?b" by simp
  from C2_same_stream_never_races [OF r m1 m2 s lt] have "\<not> cites ?r ?a ?b" .
  with r show ?thesis by (intro exI [of _ hf] conjI)
qed

section \<open>Replaying a trace\<close>

subsection \<open>Mapping over the values of a dictionary\<close>

lemma lookup_dict_map_values [simp]:
  "DAList.lookup (dict_map_values f d) k = map_option f (DAList.lookup d k)"
  by transfer (simp add: map_ran_conv)

lemma map_ran_update:
  "AList.map_ran (\<lambda>_. f) (AList.update k v xs) = AList.update k (f v) (AList.map_ran (\<lambda>_. f) xs)"
  by (induction xs) auto

lemma map_ran_delete:
  "AList.map_ran (\<lambda>_. f) (AList.delete k xs) = AList.delete k (AList.map_ran (\<lambda>_. f) xs)"
  by (induction xs) auto

lemma dict_map_values_setitem [simp]:
  "dict_map_values f (dict_setitem d k v) = dict_setitem (dict_map_values f d) k (f v)"
  unfolding dict_setitem_def by transfer (rule map_ran_update)

lemma dict_map_values_delete [simp]:
  "dict_map_values f (DAList.delete k d) = DAList.delete k (dict_map_values f d)"
  by transfer (rule map_ran_delete)

lemma dict_map_values_empty [simp]: "dict_map_values f DAList.empty = DAList.empty"
  by transfer simp

lemma dict_contains_map_values [simp]:
  "dict_contains (dict_map_values f d) k = dict_contains d k"
  by (simp add: dict_contains_def)

lemma dict_getitem_map_values:
  "dict_getitem (dict_map_values f d) k = map_sum id f (dict_getitem d k)"
  by (simp add: dict_getitem_def split: option.splits)

subsection \<open>The access log, the captured stacks forgotten\<close>

lemma strip_access_simps [simp]:
  "stream (strip_access a) = stream a"
  "Access.seq_num (strip_access a) = Access.seq_num a"
  "strip_access \<lparr>type = ty, seq_num = n, stream = strm, operator = opr, names = nms,
                 stack_trace = stack\<rparr> =
     \<lparr>type = ty, seq_num = n, stream = strm, operator = opr, names = nms, stack_trace = []\<rparr>"
  by (simp_all add: strip_access_def)

lemma strip_stack_None [simp]: "strip_stack None = None"
  by (simp add: strip_stack_def)

lemma strip_stack_Some [simp]: "strip_stack (Some st) = Some []"
  by (simp add: strip_stack_def)

lemma strip_info_simps [simp]:
  "allocation_stack_trace (strip_info info) = strip_stack (allocation_stack_trace info)"
  "reads (strip_info info) = map strip_access (reads info)"
  "write' (strip_info info) = map_option strip_access (write' info)"
  by (simp_all add: strip_info_def)

lemma strip_info_updates [simp]:
  "strip_info (info\<lparr>reads := rs\<rparr>) = (strip_info info)\<lparr>reads := map strip_access rs\<rparr>"
  "strip_info (info\<lparr>write' := w\<rparr>) = (strip_info info)\<lparr>write' := map_option strip_access w\<rparr>"
  by (simp_all add: strip_info_def)

lemma accesses_strip_log [simp]:
  "accesses (strip_log ta) = dict_map_values strip_info (accesses ta)"
  by (simp add: strip_log_def)

lemma strip_log_accesses_update [simp]:
  "strip_log (ta\<lparr>accesses := d\<rparr>) = (strip_log ta)\<lparr>accesses := dict_map_values strip_info d\<rparr>"
  by (simp add: strip_log_def)

lemma strip_log_init [simp]: "strip_log TensorsAccessed_init = TensorsAccessed_init"
  by (simp add: strip_log_def TensorsAccessed_init_def)

lemma create_tensor_strip:
  "create_tensor (strip_log ta) p (strip_stack st) = strip_log (create_tensor ta p st)"
  by (simp add: create_tensor_def strip_info_def)

lemma ensure_tensor_exists_strip:
  "ensure_tensor_exists (strip_log ta) p = strip_log (ensure_tensor_exists ta p)"
  using create_tensor_strip [of ta p None] by (simp add: ensure_tensor_exists_def)

lemma delete_tensor_strip:
  "delete_tensor (strip_log ta) p = map_sum id strip_log (delete_tensor ta p)"
  by (simp add: delete_tensor_def dict_delitem_def)

lemma ensure_tensor_does_not_exist_strip:
  "ensure_tensor_does_not_exist (strip_log ta) p =
     map_sum id strip_log (ensure_tensor_does_not_exist ta p)"
  by (simp add: ensure_tensor_does_not_exist_def delete_tensor_strip)

lemma tensor_info_strip: "tensor_info (strip_log ta) p = strip_info (tensor_info ta p)"
  by (simp add: tensor_info_def dict_get_def strip_info_def split: option.splits)

subsection \<open>Conflict checks, the captured stacks forgotten\<close>

lemma unordered_strip [simp]:
  "unordered s (strip_access cur) (strip_access prev) = unordered s cur prev"
  by (simp add: unordered_def)

lemma conflict_reports_strip:
  "conflict_reports s p (strip_stack alloc) (strip_access cur) (map strip_access prevs) =
     map strip_report (conflict_reports s p alloc cur prevs)"
  by (induction prevs) (simp_all add: conflict_reports_def)

lemma checked_by_read_strip:
  "checked_by_read (strip_info info) = map strip_access (checked_by_read info)"
  by (simp add: checked_by_read_def split: option.splits)

lemma checked_by_write_strip:
  "checked_by_write (strip_info info) = map strip_access (checked_by_write info)"
  by (simp add: checked_by_write_def checked_by_read_strip)

lemma backfill_streams_strip:
  "backfill_streams s strm (map strip_access prevs) = backfill_streams s strm prevs"
  by (induction prevs arbitrary: s) simp_all

lemma strip_handler_simps [simp]:
  "EventHandler.seq_num (strip_handler h) = EventHandler.seq_num h"
  "syncs (strip_handler h) = syncs h"
  "tensors_accessed (strip_handler h) = strip_log (tensors_accessed h)"
  by (simp_all add: strip_handler_def)

lemma strip_handler_updates [simp]:
  "strip_handler (h\<lparr>syncs := s\<rparr>) = (strip_handler h)\<lparr>syncs := s\<rparr>"
  "strip_handler (h\<lparr>seq_num := n\<rparr>) = (strip_handler h)\<lparr>seq_num := n\<rparr>"
  "strip_handler (h\<lparr>tensors_accessed := ta\<rparr>) = (strip_handler h)\<lparr>tensors_accessed := strip_log ta\<rparr>"
  by (simp_all add: strip_handler_def)

lemma strip_handler_init [simp]: "strip_handler EventHandler_init = EventHandler_init"
  by (simp add: strip_handler_def EventHandler_init_def)

lemma strip_loop_state_pair [simp]:
  "strip_loop_state (h, errs) = (strip_handler h, map strip_report errs)"
  by (simp add: strip_loop_state_def)

subsection \<open>The handlers, the captured stacks forgotten\<close>

lemma read_only_step_strip:
  "read_only_step strm opr tensor_names [] (strip_loop_state hl) p =
     map_sum id strip_loop_state (read_only_step strm opr tensor_names stack hl p)"
proof -
  obtain h errs where hl: "hl = (h, errs)" by (cases hl)
  show ?thesis
  proof (cases "dict_getitem tensor_names p")
    case (Inl x)
    then show ?thesis by (simp add: read_only_step_KeyError)
  next
    case (Inr nms)
    show ?thesis
      unfolding hl strip_loop_state_pair
        read_only_step_eq [OF Inr, of strm opr stack h errs]
        read_only_step_eq [OF Inr, of strm opr "[]" "strip_handler h" "map strip_report errs"]
      by (simp add: Let_def tensor_info_strip ensure_tensor_exists_strip checked_by_read_strip
          backfill_streams_strip
          conflict_reports_strip [of _ _ _ "\<lparr>type = READ, seq_num = EventHandler.seq_num h,
            stream = strm, operator = opr, names = nms, stack_trace = stack\<rparr>", simplified])
  qed
qed

lemma read_write_step_strip:
  "read_write_step strm opr tensor_names [] (strip_loop_state hl) p =
     map_sum id strip_loop_state (read_write_step strm opr tensor_names stack hl p)"
proof -
  obtain h errs where hl: "hl = (h, errs)" by (cases hl)
  show ?thesis
  proof (cases "dict_getitem tensor_names p")
    case (Inl x)
    then show ?thesis by (simp add: read_write_step_KeyError)
  next
    case (Inr nms)
    show ?thesis
      unfolding hl strip_loop_state_pair
        read_write_step_eq [OF Inr, of strm opr stack h errs]
        read_write_step_eq [OF Inr, of strm opr "[]" "strip_handler h" "map strip_report errs"]
      by (simp add: Let_def tensor_info_strip ensure_tensor_exists_strip checked_by_write_strip
          backfill_streams_strip
          conflict_reports_strip [of _ _ _ "\<lparr>type = WRITE, seq_num = EventHandler.seq_num h,
            stream = strm, operator = opr, names = nms, stack_trace = stack\<rparr>", simplified])
  qed
qed

lemma for_each_strip:
  assumes "\<And>s p. body' (f s) p = map_sum id f (body s p)"
  shows "for_each body' (f s) ps = map_sum id f (for_each body s ps)"
proof (induction ps arbitrary: s)
  case Nil
  show ?case by simp
next
  case (Cons p ps)
  show ?case
  proof (cases "body s p")
    case (Inl x)
    then show ?thesis by (simp add: assms)
  next
    case (Inr s1)
    then show ?thesis by (simp add: assms Cons.IH)
  qed
qed

lemma handle_kernel_launch_strip:
  "handle_kernel_launch (strip_handler h) strm read_only read_write opr tensor_names [] =
     map_sum id (\<lambda>(errs, h'). (map strip_report errs, strip_handler h'))
       (handle_kernel_launch h strm read_only read_write opr tensor_names stack)"
proof -
  obtain s0 where s0: "update_seq_num (syncs h) strm (EventHandler.seq_num h + 1) = Inr s0"
    by (simp add: update_seq_num_eq)
  let ?start = "(h\<lparr>seq_num := EventHandler.seq_num h + 1, syncs := s0\<rparr>, [])"
  note ro = for_each_strip [of "read_only_step strm opr tensor_names []" strip_loop_state
      "read_only_step strm opr tensor_names stack", OF read_only_step_strip]
  note rw = for_each_strip [of "read_write_step strm opr tensor_names []" strip_loop_state
      "read_write_step strm opr tensor_names stack", OF read_write_step_strip]
  have start: "(strip_handler h\<lparr>seq_num := EventHandler.seq_num h + 1, syncs := s0\<rparr>, []) =
               strip_loop_state ?start"
    by simp
  show ?thesis
  proof (cases "for_each (read_only_step strm opr tensor_names stack) ?start read_only")
    case (Inl x)
    with s0 ro [of ?start read_only] show ?thesis
      by (simp add: handle_kernel_launch_def Let_def)
  next
    case (Inr hl1)
    note hl1 = this
    show ?thesis
    proof (cases "for_each (read_write_step strm opr tensor_names stack) hl1 read_write")
      case (Inl x)
      with s0 hl1 ro [of ?start read_only] rw [of hl1 read_write] show ?thesis
        by (simp add: handle_kernel_launch_def Let_def)
    next
      case (Inr hl2)
      obtain h2 errs where "hl2 = (h2, errs)" by (cases hl2)
      with Inr s0 hl1 ro [of ?start read_only] rw [of hl1 read_write] show ?thesis
        by (simp add: handle_kernel_launch_def Let_def)
    qed
  qed
qed

lemma handle_strip:
  "handle (strip_handler h) (strip_event ev) =
     map_sum id (\<lambda>(out, h'). (map_option (map strip_report) out, strip_handler h')) (handle h ev)"
proof (cases ev)
  case (KernelLaunch strm read_only read_write opr tensor_names stack)
  show ?thesis
    unfolding KernelLaunch
    using handle_kernel_launch_strip [of h strm read_only read_write opr tensor_names stack]
    by (cases "handle_kernel_launch h strm read_only read_write opr tensor_names stack")
       (auto simp: split_def)
next
  case (EventCreation e)
  then show ?thesis by (simp add: handle_event_creation_def create_event_eq)
next
  case (EventDeletion e)
  then show ?thesis by (simp add: handle_event_deletion_def delete_event_eq)
next
  case (EventRecord e strm)
  then show ?thesis
    by (cases "record_state (syncs h) e strm") (simp_all add: handle_event_record_def)
next
  case (EventWait e strm)
  then show ?thesis
    by (cases "state_wait_for_event (syncs h) strm e") (simp_all add: handle_event_wait_def)
next
  case (MemoryAllocation p stack)
  show ?thesis
    unfolding MemoryAllocation
    using create_tensor_strip [of _ p "Some stack"]
    by (cases "ensure_tensor_does_not_exist (tensors_accessed h) p")
       (simp_all add: handle_memory_allocation_def ensure_tensor_does_not_exist_strip)
next
  case (MemoryDeallocation p)
  then show ?thesis
    by (cases "delete_tensor (ensure_tensor_exists (tensors_accessed h) p) p")
       (simp_all add: handle_memory_deallocation_def ensure_tensor_exists_strip delete_tensor_strip)
next
  case (StreamCreation strm)
  then show ?thesis by (simp add: handle_stream_creation_def)
qed

lemma run_strip: "run (strip_handler h) (map strip_event evs) = strip_run (run h evs)"
proof (induction evs arbitrary: h)
  case Nil
  show ?case by (simp add: strip_run_def)
next
  case (Cons ev evs)
  show ?case
  proof (cases "handle h ev")
    case (Inl x)
    then show ?thesis by (simp add: handle_strip strip_run_def)
  next
    case (Inr res)
    obtain out h1 where res: "res = (out, h1)" by (cases res)
    show ?thesis
    proof (cases "run h1 evs")
      case (Inl x)
      with Inr res Cons.IH [of h1] show ?thesis by (simp add: handle_strip strip_run_def)
    next
      case run1: (Inr res1)
      obtain outs h2 where "res1 = (outs, h2)" by (cases res1)
      with run1 Inr res Cons.IH [of h1] show ?thesis by (simp add: handle_strip strip_run_def)
    qed
  qed
qed

lemma strip_access_eq_iff:
  "strip_access a = strip_access b \<longleftrightarrow>
     type a = type b \<and> Access.seq_num a = Access.seq_num b \<and> stream a = stream b \<and>
     operator a = operator b \<and> names a = names b"
  by (cases a, cases b) (auto simp: strip_access_def)

lemma strip_stack_eq_iff: "strip_stack x = strip_stack y \<longleftrightarrow> (x = None) = (y = None)"
  by (cases x; cases y) simp_all

text \<open>
  Two reports are equal up to the captured stacks exactly when they agree on the buffer, on
  whether an allocation stack was captured, and on the kind, sequence number, stream,
  operator and argument names of both accesses.
\<close>

lemma strip_report_eq_iff:
  "strip_report r = strip_report r' \<longleftrightarrow>
     data_ptr r = data_ptr r' \<and>
     (allocation_stack r = None) = (allocation_stack r' = None) \<and>
     strip_access (current_access r) = strip_access (current_access r') \<and>
     strip_access (previous_access r) = strip_access (previous_access r')"
  by (cases r; cases r') (simp add: strip_stack_eq_iff)

text \<open>
  Claim C9, as amended.  Two runs of the fresh handler over the same handler calls with the
  same arguments raise the same exception or both return, and then with the same list of
  reports at every launch and the same final state, apart from the stack traces, which the
  handler captures itself at each launch and allocation.
\<close>

theorem C9_replay_equal_up_to_stacks:
  assumes "map strip_event evs = map strip_event evs'"
  shows "strip_run (run EventHandler_init evs) = strip_run (run EventHandler_init evs')"
proof -
  have "strip_run (run EventHandler_init evs) = run EventHandler_init (map strip_event evs)"
    using run_strip [of EventHandler_init evs] by simp
  also have "\<dots> = run EventHandler_init (map strip_event evs')" by (simp add: assms)
  also have "\<dots> = strip_run (run EventHandler_init evs')"
    using run_strip [of EventHandler_init evs'] by simp
  finally show ?thesis .
qed

theorem C9_replay_equal_up_to_stacks_witness:
  "strip_run (run EventHandler_init
     [MemoryAllocation 11 [''here''],
      KernelLaunch 0 [] [11] ''op'' (dict_setitem DAList.empty 11 [''x'']) [''first''],
      KernelLaunch 1 [11] [] ''op'' (dict_setitem DAList.empty 11 [''x'']) [''second'']]) =
   strip_run (run EventHandler_init
     [MemoryAllocation 11 [''there''],
      KernelLaunch 0 [] [11] ''op'' (dict_setitem DAList.empty 11 [''x'']) [''third''],
      KernelLaunch 1 [11] [] ''op'' (dict_setitem DAList.empty 11 [''x'']) [''fourth'']])"
proof -
  have same:
    "map strip_event
       [MemoryAllocation 11 [''here''],
        KernelLaunch 0 [] [11] ''op'' (dict_setitem DAList.empty 11 [''x'']) [''first''],
        KernelLaunch 1 [11] [] ''op'' (dict_setitem DAList.empty 11 [''x'']) [''second'']] =
     map strip_event
       [MemoryAllocation 11 [''there''],
        KernelLaunch 0 [] [11] ''op'' (dict_setitem DAList.empty 11 [''x'']) [''third''],
        KernelLaunch 1 [11] [] ''op'' (dict_setitem DAList.empty 11 [''x'']) [''fourth'']]"
    by simp
  show ?thesis by (rule C9_replay_equal_up_to_stacks [OF same])
qed

text \<open>
  The claim as it was stated fails: the two traces below are the same handler calls with the
  same arguments, and the lists of reports that the two runs return differ, in the stack
  traces that the second launch and the allocation captured.
\<close>

theorem C9_replay_counterexample:
  "map strip_event
     [MemoryAllocation 11 [''here''],
      KernelLaunch 0 [] [11] ''op'' (dict_setitem DAList.empty 11 [''x'']) [''first''],
      KernelLaunch 1 [11] [] ''op'' (dict_setitem DAList.empty 11 [''x'']) [''second'']] =
   map strip_event
     [MemoryAllocation 11 [''there''],
      KernelLaunch 0 [] [11] ''op'' (dict_setitem DAList.empty 11 [''x'']) [''third''],
      KernelLaunch 1 [11] [] ''op'' (dict_setitem DAList.empty 11 [''x'']) [''fourth'']] \<and>
   map_sum id fst (run EventHandler_init
     [MemoryAllocation 11 [''here''],
      KernelLaunch 0 [] [11] ''op'' (dict_setitem DAList.empty 11 [''x'']) [''first''],
      KernelLaunch 1 [11] [] ''op'' (dict_setitem DAList.empty 11 [''x'']) [''second'']]) \<noteq>
   map_sum id fst (run EventHandler_init
     [MemoryAllocation 11 [''there''],
      KernelLaunch 0 [] [11] ''op'' (dict_setitem DAList.empty 11 [''x'']) [''third''],
      KernelLaunch 1 [11] [] ''op'' (dict_setitem DAList.empty 11 [''x'']) [''fourth'']])"
proof -
  let ?e1 = "[MemoryAllocation 11 [''here''],
      KernelLaunch 0 [] [11] ''op'' (dict_setitem DAList.empty 11 [''x'']) [''first''],
      KernelLaunch 1 [11] [] ''op'' (dict_setitem DAList.empty 11 [''x'']) [''second'']]"
  let ?e2 = "[MemoryAllocation 11 [''there''],
      KernelLaunch 0 [] [11] ''op'' (dict_setitem DAList.empty 11 [''x'']) [''third''],
      KernelLaunch 1 [11] [] ''op'' (dict_setitem DAList.empty 11 [''x'']) [''fourth'']]"
  let ?o1 = "[None, Some [],
      Some [UnsynchronizedAccessError 11 (Some [''here''])
              \<lparr>type = READ, seq_num = 2, stream = 1, operator = ''op'', names = [''x''],
               stack_trace = [''second'']\<rparr>
              \<lparr>type = WRITE, seq_num = 1, stream = 0, operator = ''op'', names = [''x''],
               stack_trace = [''first'']\<rparr>]]"
  let ?o2 = "[None, Some [],
      Some [UnsynchronizedAccessError 11 (Some [''there''])
              \<lparr>type = READ, seq_num = 2, stream = 1, operator = ''op'', names = [''x''],
               stack_trace = [''fourth'']\<rparr>
              \<lparr>type = WRITE, seq_num = 1, stream = 0, operator = ''op'', names = [''x''],
               stack_trace = [''third'']\<rparr>]]"
  have same: "map strip_event ?e1 = map strip_event ?e2" by simp
  have "\<exists>h. run EventHandler_init ?e1 = Inr (?o1, h)"
    by (simp add: EventHandler_init_def TensorsAccessed_init_def StreamSynchronizations_init_def
        handler_defs log_defs set_write_eq read_only_step_def read_write_step_def check_conflict_def
        is_ordered_after_eq update_seq_num_eq create_stream_def ensure_stream_exists_def
        Let_def dict_delitem_def current_value_def clock_of_def)
  then obtain h1 where r1: "run EventHandler_init ?e1 = Inr (?o1, h1)" by (elim exE)
  have "\<exists>h. run EventHandler_init ?e2 = Inr (?o2, h)"
    by (simp add: EventHandler_init_def TensorsAccessed_init_def StreamSynchronizations_init_def
        handler_defs log_defs set_write_eq read_only_step_def read_write_step_def check_conflict_def
        is_ordered_after_eq update_seq_num_eq create_stream_def ensure_stream_exists_def
        Let_def dict_delitem_def current_value_def clock_of_def)
  then obtain h2 where r2: "run EventHandler_init ?e2 = Inr (?o2, h2)" by (elim exE)
  have differ: "map_sum id fst (run EventHandler_init ?e1) \<noteq>
                map_sum id fst (run EventHandler_init ?e2)"
    unfolding r1 r2 by simp
  from same differ show ?thesis by (rule conjI)
qed

section \<open>Runs that return\<close>

text \<open>
  The only exception that a handler can raise is the \<^verbatim>\<open>KeyError\<close> of a launch whose
  \<^verbatim>\<open>tensor_names\<close> lacks one of its data pointers: every other dictionary access is preceded
  by the back-fill that makes it succeed.
\<close>

lemma for_each_returns:
  assumes "\<And>s p. p \<in> set ps \<Longrightarrow> \<exists>s'. body s p = Inr s'"
  shows "\<exists>s'. for_each body s ps = Inr s'"
  using assms
proof (induction ps arbitrary: s)
  case Nil
  show ?case by simp
next
  case (Cons p ps)
  from Cons.prems [of p s] obtain s1 where s1: "body s p = Inr s1" by auto
  from Cons.IH [of s1] Cons.prems obtain s' where "for_each body s1 ps = Inr s'" by auto
  with s1 show ?case by simp
qed

lemma read_only_step_returns:
  assumes "dict_contains tensor_names p"
  shows "\<exists>hl'. read_only_step strm opr tensor_names stack hl p = Inr hl'"
proof -
  obtain h errs where hl: "hl = (h, errs)" by (cases hl)
  from dict_contains_getitem [OF assms] obtain nms where "dict_getitem tensor_names p = Inr nms" ..
  from read_only_step_eq [OF this, of strm opr stack h errs] show ?thesis
    by (simp add: hl Let_def)
qed

lemma read_write_step_returns:
  assumes "dict_contains tensor_names p"
  shows "\<exists>hl'. read_write_step strm opr tensor_names stack hl p = Inr hl'"
proof -
  obtain h errs where hl: "hl = (h, errs)" by (cases hl)
  from dict_contains_getitem [OF assms] obtain nms where "dict_getitem tensor_names p = Inr nms" ..
  from read_write_step_eq [OF this, of strm opr stack h errs] show ?thesis
    by (simp add: hl Let_def)
qed

lemma handle_kernel_launch_returns:
  assumes "list_all (dict_contains tensor_names) (read_only @ read_write)"
  shows "\<exists>res. handle_kernel_launch h strm read_only read_write opr tensor_names stack = Inr res"
proof -
  from assms have ro: "\<And>p. p \<in> set read_only \<Longrightarrow> dict_contains tensor_names p"
    and rw: "\<And>p. p \<in> set read_write \<Longrightarrow> dict_contains tensor_names p"
    by (simp_all add: list_all_iff)
  obtain s0 where s0: "update_seq_num (syncs h) strm (EventHandler.seq_num h + 1) = Inr s0"
    by (simp add: update_seq_num_eq)
  let ?start = "(h\<lparr>seq_num := EventHandler.seq_num h + 1, syncs := s0\<rparr>, [])"
  from for_each_returns [of read_only "read_only_step strm opr tensor_names stack" ?start]
    read_only_step_returns [OF ro]
  obtain hl1 where hl1: "for_each (read_only_step strm opr tensor_names stack) ?start read_only = Inr hl1"
    by blast
  from for_each_returns [of read_write "read_write_step strm opr tensor_names stack" hl1]
    read_write_step_returns [OF rw]
  obtain hl2 where hl2: "for_each (read_write_step strm opr tensor_names stack) hl1 read_write = Inr hl2"
    by blast
  obtain h2 errs where "hl2 = (h2, errs)" by (cases hl2)
  with s0 hl1 hl2 show ?thesis by (simp add: handle_kernel_launch_def Let_def)
qed

lemma delete_tensor_returns:
  "dict_contains (accesses ta) p \<Longrightarrow> \<exists>ta'. delete_tensor ta p = Inr ta'"
  by (simp add: delete_tensor_def dict_delitem_def)

lemma handle_returns:
  assumes "names_given ev"
  shows "\<exists>res. handle h ev = Inr res"
proof (cases ev)
  case (KernelLaunch strm read_only read_write opr tensor_names stack)
  with assms handle_kernel_launch_returns [of tensor_names read_only read_write h strm opr stack]
  obtain res where "handle_kernel_launch h strm read_only read_write opr tensor_names stack = Inr res"
    by auto
  with KernelLaunch show ?thesis by (cases res) simp
next
  case (EventCreation e)
  then show ?thesis by (simp add: handle_event_creation_def create_event_eq)
next
  case (EventDeletion e)
  then show ?thesis by (simp add: handle_event_deletion_def delete_event_eq)
next
  case (EventRecord e strm)
  then show ?thesis by (simp add: handle_event_record_def record_state_eq Let_def)
next
  case (EventWait e strm)
  from state_wait_for_event_eq [of "syncs h" strm e] obtain s' where
    "state_wait_for_event (syncs h) strm e = Inr s'" by blast
  with EventWait show ?thesis by (simp add: handle_event_wait_def)
next
  case (MemoryAllocation p stack)
  have "\<exists>ta. ensure_tensor_does_not_exist (tensors_accessed h) p = Inr ta"
    by (simp add: ensure_tensor_does_not_exist_def delete_tensor_returns)
  then obtain ta where "ensure_tensor_does_not_exist (tensors_accessed h) p = Inr ta" ..
  with MemoryAllocation show ?thesis by (simp add: handle_memory_allocation_def)
next
  case (MemoryDeallocation p)
  have "dict_contains (accesses (ensure_tensor_exists (tensors_accessed h) p)) p"
    by (simp add: ensure_tensor_exists_def create_tensor_def)
  from delete_tensor_returns [OF this] obtain ta where
    "delete_tensor (ensure_tensor_exists (tensors_accessed h) p) p = Inr ta" ..
  with MemoryDeallocation show ?thesis by (simp add: handle_memory_deallocation_def)
next
  case (StreamCreation strm)
  then show ?thesis by simp
qed

lemma run_returns:
  assumes "list_all names_given evs"
  shows "\<exists>res. run h evs = Inr res"
  using assms
proof (induction evs arbitrary: h)
  case Nil
  show ?case by simp
next
  case (Cons ev evs)
  from Cons.prems have "names_given ev" and rest: "list_all names_given evs" by simp_all
  from handle_returns [OF this(1), of h] obtain out h1 where 1: "handle h ev = Inr (out, h1)"
    by auto
  from Cons.IH [OF rest, of h1] obtain outs h2 where "run h1 evs = Inr (outs, h2)" by auto
  with 1 show ?case by simp
qed

section \<open>The sync tables of a run\<close>

text \<open>
  The handler changes its sync table through the methods of the class only, so the table
  of every state of a run is one that the methods can build.
\<close>

lemma reachable_ensure_stream_exists:
  "sync_table_reachable s \<Longrightarrow> sync_table_reachable (ensure_stream_exists s st)"
  using sync_table_reachable.create_stream [of s st] by (simp add: create_stream_eq_ensure)

lemma reachable_backfill_streams:
  "sync_table_reachable s \<Longrightarrow> sync_table_reachable (backfill_streams s strm prevs)"
  by (induction prevs arbitrary: s) (simp_all add: reachable_ensure_stream_exists)

lemma read_only_step_reachable:
  assumes "sync_table_reachable (syncs (fst hl))"
    and "read_only_step strm opr tensor_names stack hl p = Inr hl'"
  shows "sync_table_reachable (syncs (fst hl'))"
proof -
  obtain h errs h' errs' where hl: "hl = (h, errs)" "hl' = (h', errs')"
    by (cases hl, cases hl') auto
  from assms(2) [unfolded hl] show ?thesis
  proof (cases rule: read_only_step_cases)
    case (1 nms)
    from assms(1) show ?thesis by (simp add: hl 1(1) reachable_backfill_streams)
  qed
qed

lemma read_write_step_reachable:
  assumes "sync_table_reachable (syncs (fst hl))"
    and "read_write_step strm opr tensor_names stack hl p = Inr hl'"
  shows "sync_table_reachable (syncs (fst hl'))"
proof -
  obtain h errs h' errs' where hl: "hl = (h, errs)" "hl' = (h', errs')"
    by (cases hl, cases hl') auto
  from assms(2) [unfolded hl] show ?thesis
  proof (cases rule: read_write_step_cases)
    case (1 nms)
    from assms(1) show ?thesis by (simp add: hl 1(1) reachable_backfill_streams)
  qed
qed

lemma handle_kernel_launch_reachable:
  assumes "sync_table_reachable (syncs h)"
    and "handle_kernel_launch h strm read_only read_write opr tensor_names stack = Inr (errs, h')"
  shows "sync_table_reachable (syncs h')"
proof -
  from assms(2) obtain s0 hl1 where
    s0: "update_seq_num (syncs h) strm (EventHandler.seq_num h + 1) = Inr s0"
    and ro: "for_each (read_only_step strm opr tensor_names stack)
               (h\<lparr>seq_num := EventHandler.seq_num h + 1, syncs := s0\<rparr>, []) read_only = Inr hl1"
    and rw: "for_each (read_write_step strm opr tensor_names stack) hl1 read_write = Inr (h', errs)"
    by (rule handle_kernel_launch_cases)
  let ?P = "\<lambda>hl. sync_table_reachable (syncs (fst hl))"
  have start: "?P (h\<lparr>seq_num := EventHandler.seq_num h + 1, syncs := s0\<rparr>, [])"
    using sync_table_reachable.update_seq_num [OF assms(1) s0] by simp
  have mid: "?P hl1"
    by (rule for_each_invariant [where P = ?P, OF _ start ro]) (rule read_only_step_reachable)
  have "?P (h', errs)"
    by (rule for_each_invariant [where P = ?P, OF _ mid rw]) (rule read_write_step_reachable)
  then show ?thesis by simp
qed

lemma handle_reachable:
  assumes "sync_table_reachable (syncs h)" and "handle h ev = Inr (out, h')"
  shows "sync_table_reachable (syncs h')"
proof (cases ev)
  case (KernelLaunch strm read_only read_write opr tensor_names stack)
  with assms(2) obtain errs where
    "handle_kernel_launch h strm read_only read_write opr tensor_names stack = Inr (errs, h')"
    by (cases "handle_kernel_launch h strm read_only read_write opr tensor_names stack") auto
  with assms(1) show ?thesis by (rule handle_kernel_launch_reachable)
next
  case (EventCreation e)
  with assms(2) obtain s' where "create_event (syncs h) e = Inr s'" "h' = h\<lparr>syncs := s'\<rparr>"
    by (cases "create_event (syncs h) e") (auto simp: handle_event_creation_def)
  with sync_table_reachable.create_event [OF assms(1)] show ?thesis by simp
next
  case (EventDeletion e)
  with assms(2) obtain s' where "delete_event (syncs h) e = Inr s'" "h' = h\<lparr>syncs := s'\<rparr>"
    by (cases "delete_event (syncs h) e") (auto simp: handle_event_deletion_def)
  with sync_table_reachable.delete_event [OF assms(1)] show ?thesis by simp
next
  case (EventRecord e strm)
  with assms(2) obtain s' where "record_state (syncs h) e strm = Inr s'" "h' = h\<lparr>syncs := s'\<rparr>"
    by (cases "record_state (syncs h) e strm") (auto simp: handle_event_record_def)
  with sync_table_reachable.record_state [OF assms(1)] show ?thesis by simp
next
  case (EventWait e strm)
  with assms(2) obtain s' where
    "state_wait_for_event (syncs h) strm e = Inr s'" "h' = h\<lparr>syncs := s'\<rparr>"
    by (cases "state_wait_for_event (syncs h) strm e") (auto simp: handle_event_wait_def)
  with sync_table_reachable.state_wait_for_event [OF assms(1)] show ?thesis by simp
next
  case (MemoryAllocation p stack)
  with assms show ?thesis
    by (cases "ensure_tensor_does_not_exist (tensors_accessed h) p")
       (auto simp: handle_memory_allocation_def)
next
  case (MemoryDeallocation p)
  with assms show ?thesis
    by (cases "delete_tensor (ensure_tensor_exists (tensors_accessed h) p) p")
       (auto simp: handle_memory_deallocation_def)
next
  case (StreamCreation strm)
  with assms(2) have "h' = h\<lparr>syncs := create_stream (syncs h) strm\<rparr>"
    by (auto simp: handle_stream_creation_def)
  with sync_table_reachable.create_stream [OF assms(1)] show ?thesis by simp
qed

lemma run_reachable:
  assumes "sync_table_reachable (syncs h)" and "run h evs = Inr (outs, h')"
  shows "sync_table_reachable (syncs h')"
  using assms
proof (induction evs arbitrary: h outs)
  case Nil
  then show ?case by simp
next
  case (Cons ev evs)
  from Cons.prems(2) obtain out h1 outs1 where
    first: "handle h ev = Inr (out, h1)" and rest: "run h1 evs = Inr (outs1, h')"
    by (cases "handle h ev"; cases "run (snd (projr (handle h ev))) evs") auto
  from Cons.IH [OF handle_reachable [OF Cons.prems(1) first] rest] show ?case .
qed

lemma run_sync_table_reachable:
  "run EventHandler_init evs = Inr (outs, h) \<Longrightarrow> sync_table_reachable (syncs h)"
  using run_reachable [of EventHandler_init evs outs h]
  by (simp add: EventHandler_init_def sync_table_reachable.init)

subsection \<open>A whole launch applies the two policies to every buffer of its lists\<close>

lemma for_each_foldl:
  assumes "\<And>s p. p \<in> set ps \<Longrightarrow> body s p = Inr (step s p)"
  shows "for_each body s ps = Inr (foldl step s ps)"
  using assms by (induction ps arbitrary: s) simp_all

lemma dict_contains_getitem_get:
  "dict_contains d k \<Longrightarrow> dict_getitem d k = Inr (dict_get d k dflt)"
  by (auto simp: dict_contains_def dict_getitem_def dict_get_def)

lemma read_only_step_policy:
  assumes "dict_contains tensor_names p"
  shows "read_only_step strm opr tensor_names stack hl p =
           Inr (read_policy_step strm opr tensor_names stack hl p)"
proof -
  obtain h errs where hl: "hl = (h, errs)" by (cases hl)
  from read_only_step_eq [OF dict_contains_getitem_get [OF assms, of "[]"], of strm opr stack h errs]
  show ?thesis by (simp add: hl read_policy_step_def new_access_def Let_def)
qed

lemma read_write_step_policy:
  assumes "dict_contains tensor_names p"
  shows "read_write_step strm opr tensor_names stack hl p =
           Inr (write_policy_step strm opr tensor_names stack hl p)"
proof -
  obtain h errs where hl: "hl = (h, errs)" by (cases hl)
  from read_write_step_eq [OF dict_contains_getitem_get [OF assms, of "[]"], of strm opr stack h errs]
  show ?thesis by (simp add: hl write_policy_step_def new_access_def Let_def)
qed

lemma update_seq_num_launch_start:
  "update_seq_num (syncs h) strm (EventHandler.seq_num h + 1) = Inr (syncs (launch_start h strm))"
  by (simp add: update_seq_num_eq launch_start_def Let_def)

lemma launch_start_eq:
  "h\<lparr>seq_num := EventHandler.seq_num h + 1, syncs := syncs (launch_start h strm)\<rparr> =
     launch_start h strm"
  by (simp add: launch_start_def Let_def)

lemma handle_kernel_launch_policy:
  assumes "list_all (dict_contains tensor_names) (read_only @ read_write)"
  shows "handle_kernel_launch h strm read_only read_write opr tensor_names stack =
           Inr (snd (foldl (write_policy_step strm opr tensor_names stack)
                       (foldl (read_policy_step strm opr tensor_names stack)
                          (launch_start h strm, []) read_only) read_write),
                fst (foldl (write_policy_step strm opr tensor_names stack)
                       (foldl (read_policy_step strm opr tensor_names stack)
                          (launch_start h strm, []) read_only) read_write))"
proof -
  from assms have ro: "\<And>p. p \<in> set read_only \<Longrightarrow> dict_contains tensor_names p"
    and rw: "\<And>p. p \<in> set read_write \<Longrightarrow> dict_contains tensor_names p"
    by (simp_all add: list_all_iff)
  let ?mid = "foldl (read_policy_step strm opr tensor_names stack) (launch_start h strm, []) read_only"
  have 1: "for_each (read_only_step strm opr tensor_names stack) (launch_start h strm, []) read_only =
             Inr ?mid"
    by (rule for_each_foldl) (rule read_only_step_policy [OF ro])
  have 2: "for_each (read_write_step strm opr tensor_names stack) ?mid read_write =
             Inr (foldl (write_policy_step strm opr tensor_names stack) ?mid read_write)"
    by (rule for_each_foldl) (rule read_write_step_policy [OF rw])
  show ?thesis
    by (simp add: handle_kernel_launch_def Let_def update_seq_num_launch_start launch_start_eq
        1 2 split_def)
qed

text \<open>
  Claim C3.  A launch whose buffers all have argument names returns, and what it returns is
  the read-write list folded, in order and after the read-only list, with \<open>write_policy_step\<close>.
  For every buffer of the read-write list that step appends the reports of the conflict
  checks of the new \<^verbatim>\<open>WRITE\<close> access against every reader since the last write and not the
  last writer when there are readers, and against the last writer alone, if there is one,
  when there are none; and the access log it leaves is the one that \<^verbatim>\<open>set_write\<close> returns for
  the new access.
\<close>

theorem C3_launch_checks_readers_or_writer:
  assumes "list_all (dict_contains tensor_names) (read_only @ read_write)"
  shows "handle_kernel_launch h strm read_only read_write opr tensor_names stack =
           Inr (snd (foldl (write_policy_step strm opr tensor_names stack)
                       (foldl (read_policy_step strm opr tensor_names stack)
                          (launch_start h strm, []) read_only) read_write),
                fst (foldl (write_policy_step strm opr tensor_names stack)
                       (foldl (read_policy_step strm opr tensor_names stack)
                          (launch_start h strm, []) read_only) read_write)) \<and>
         (\<forall>hl p. snd (write_policy_step strm opr tensor_names stack hl p) =
                  snd hl @
                  conflict_reports (syncs (fst hl)) p
                    (allocation_stack_trace (tensor_info (tensors_accessed (fst hl)) p))
                    (new_access WRITE (fst hl) strm opr tensor_names stack p)
                    (if reads (tensor_info (tensors_accessed (fst hl)) p) \<noteq> []
                     then reads (tensor_info (tensors_accessed (fst hl)) p)
                     else (case write' (tensor_info (tensors_accessed (fst hl)) p) of
                             None \<Rightarrow> []
                           | Some w \<Rightarrow> [w]))) \<and>
         (\<forall>hl p. set_write (ensure_tensor_exists (tensors_accessed (fst hl)) p) p
                    (new_access WRITE (fst hl) strm opr tensor_names stack p) =
                  Inr (tensors_accessed (fst (write_policy_step strm opr tensor_names stack hl p))))"
proof (intro conjI allI)
  show "handle_kernel_launch h strm read_only read_write opr tensor_names stack =
           Inr (snd (foldl (write_policy_step strm opr tensor_names stack)
                       (foldl (read_policy_step strm opr tensor_names stack)
                          (launch_start h strm, []) read_only) read_write),
                fst (foldl (write_policy_step strm opr tensor_names stack)
                       (foldl (read_policy_step strm opr tensor_names stack)
                          (launch_start h strm, []) read_only) read_write))"
    using assms by (rule handle_kernel_launch_policy)
next
  fix hl :: "EventHandler \<times> SynchronizationError list" and p
  show "snd (write_policy_step strm opr tensor_names stack hl p) =
          snd hl @
          conflict_reports (syncs (fst hl)) p
            (allocation_stack_trace (tensor_info (tensors_accessed (fst hl)) p))
            (new_access WRITE (fst hl) strm opr tensor_names stack p)
            (if reads (tensor_info (tensors_accessed (fst hl)) p) \<noteq> []
             then reads (tensor_info (tensors_accessed (fst hl)) p)
             else (case write' (tensor_info (tensors_accessed (fst hl)) p) of
                     None \<Rightarrow> []
                   | Some w \<Rightarrow> [w]))"
    by (simp add: write_policy_step_def Let_def checked_by_write_def checked_by_read_def)
next
  fix hl :: "EventHandler \<times> SynchronizationError list" and p
  show "set_write (ensure_tensor_exists (tensors_accessed (fst hl)) p) p
          (new_access WRITE (fst hl) strm opr tensor_names stack p) =
        Inr (tensors_accessed (fst (write_policy_step strm opr tensor_names stack hl p)))"
    using set_write_eq [of "ensure_tensor_exists (tensors_accessed (fst hl)) p" p
        "tensor_info (tensors_accessed (fst hl)) p", OF getitem_ensure_tensor_exists]
    by (simp add: write_policy_step_def Let_def)
qed

theorem C3_launch_checks_readers_or_writer_witness:
  "\<exists>h'. handle_kernel_launch
          \<lparr>tensors_accessed =
             \<lparr>accesses =
                dict_setitem
                  (dict_setitem DAList.empty 11
                     \<lparr>allocation_stack_trace = None,
                      reads = [\<lparr>type = READ, seq_num = 2, stream = 1, operator = ''op'',
                                names = [''x''], stack_trace = []\<rparr>],
                      write' = Some \<lparr>type = WRITE, seq_num = 1, stream = 2, operator = ''op'',
                                     names = [''x''], stack_trace = []\<rparr>\<rparr>)
                  12
                  \<lparr>allocation_stack_trace = None, reads = [],
                   write' = Some \<lparr>type = WRITE, seq_num = 3, stream = 1, operator = ''op'',
                                  names = [''y''], stack_trace = []\<rparr>\<rparr>\<rparr>,
           syncs = StreamSynchronizations_init, seq_num = 3\<rparr>
          0 [] [11, 12] ''op''
          (dict_setitem (dict_setitem DAList.empty 11 [''x'']) 12 [''y'']) [] =
        Inr ([UnsynchronizedAccessError 11 None
                \<lparr>type = WRITE, seq_num = 4, stream = 0, operator = ''op'',
                 names = [''x''], stack_trace = []\<rparr>
                \<lparr>type = READ, seq_num = 2, stream = 1, operator = ''op'',
                 names = [''x''], stack_trace = []\<rparr>,
              UnsynchronizedAccessError 12 None
                \<lparr>type = WRITE, seq_num = 4, stream = 0, operator = ''op'',
                 names = [''y''], stack_trace = []\<rparr>
                \<lparr>type = WRITE, seq_num = 3, stream = 1, operator = ''op'',
                 names = [''y''], stack_trace = []\<rparr>], h')"
proof -
  let ?tn = "dict_setitem (dict_setitem DAList.empty (11::int) [''x'']) 12 [''y'']"
  let ?h = "\<lparr>tensors_accessed =
             \<lparr>accesses =
                dict_setitem
                  (dict_setitem DAList.empty 11
                     \<lparr>allocation_stack_trace = None,
                      reads = [\<lparr>type = READ, seq_num = 2, stream = 1, operator = ''op'',
                                names = [''x''], stack_trace = []\<rparr>],
                      write' = Some \<lparr>type = WRITE, seq_num = 1, stream = 2, operator = ''op'',
                                     names = [''x''], stack_trace = []\<rparr>\<rparr>)
                  12
                  \<lparr>allocation_stack_trace = None, reads = [],
                   write' = Some \<lparr>type = WRITE, seq_num = 3, stream = 1, operator = ''op'',
                                  names = [''y''], stack_trace = []\<rparr>\<rparr>\<rparr>,
           syncs = StreamSynchronizations_init, seq_num = 3\<rparr>"
  let ?final = "foldl (write_policy_step 0 ''op'' ?tn [])
                  (foldl (read_policy_step 0 ''op'' ?tn []) (launch_start ?h 0, []) []) [11, 12]"
  have hyp: "list_all (dict_contains ?tn) ([] @ [11, 12])" by simp
  from C3_launch_checks_readers_or_writer [OF hyp, of ?h 0 "''op''" "[]", THEN conjunct1]
  have run: "handle_kernel_launch ?h 0 [] [11, 12] ''op'' ?tn [] = Inr (snd ?final, fst ?final)" .
  have reports: "snd ?final =
      [UnsynchronizedAccessError 11 None
         \<lparr>type = WRITE, seq_num = 4, stream = 0, operator = ''op'',
          names = [''x''], stack_trace = []\<rparr>
         \<lparr>type = READ, seq_num = 2, stream = 1, operator = ''op'',
          names = [''x''], stack_trace = []\<rparr>,
       UnsynchronizedAccessError 12 None
         \<lparr>type = WRITE, seq_num = 4, stream = 0, operator = ''op'',
          names = [''y''], stack_trace = []\<rparr>
         \<lparr>type = WRITE, seq_num = 3, stream = 1, operator = ''op'',
          names = [''y''], stack_trace = []\<rparr>]"
    by (simp add: write_policy_step_def launch_start_def new_access_def Let_def
        conflict_reports_def unordered_def current_value_def clock_of_def tensor_info_def
        checked_by_write_def checked_by_read_def ensure_tensor_exists_def create_tensor_def
        ensure_stream_exists_def create_stream_def StreamSynchronizations_init_def
        dict_get_def dict_contains_def)
  from run show ?thesis unfolding reports by (intro exI [of _ "fst ?final"])
qed

end
